theory Spec2Isabelle
  imports Complex_Main "HOL-Library.Word" "HOL-Library.Monad_Syntax"
begin

unbundle bit_operations_syntax

section \<open>Page mapping context (converter.ts, class PageMappingContext)\<close>

text \<open>
  The class keeps an array of mappings and a running counter \<open>currentXtcPage\<close>,
  initially 1. JavaScript numbers that only ever hold page numbers and counts are
  modelled as \<open>int\<close>.
\<close>

record PageMapping =
  originalPage :: int
  xtcStartPage :: int
  xtcPageCount :: int

record PageMappingContext =
  mappings :: "PageMapping list"
  currentXtcPage :: int

definition newPageMappingContext :: PageMappingContext where
  "newPageMappingContext = \<lparr>mappings = [], currentXtcPage = 1\<rparr>"

definition addOriginalPage :: "PageMappingContext \<Rightarrow> int \<Rightarrow> int \<Rightarrow> PageMappingContext" where
  "addOriginalPage ctx origPage pageCount =
     \<lparr>mappings = mappings ctx @
        [\<lparr>originalPage = origPage, xtcStartPage = currentXtcPage ctx, xtcPageCount = pageCount\<rparr>],
      currentXtcPage = currentXtcPage ctx + pageCount\<rparr>"

definition getXtcPage :: "PageMappingContext \<Rightarrow> int \<Rightarrow> int" where
  "getXtcPage ctx origPage =
     (case find (\<lambda>m. originalPage m = origPage) (mappings ctx) of
        Some m \<Rightarrow> xtcStartPage m
      | None \<Rightarrow> origPage)"

definition getTotalXtcPages :: "PageMappingContext \<Rightarrow> int" where
  "getTotalXtcPages ctx = currentXtcPage ctx - 1"

text \<open>A sequence of \<open>addOriginalPage\<close> calls, each given as (originalPage, xtcPageCount).\<close>

definition addOriginalPages :: "PageMappingContext \<Rightarrow> (int \<times> int) list \<Rightarrow> PageMappingContext" where
  "addOriginalPages ctx calls = foldl (\<lambda>c (p, n). addOriginalPage c p n) ctx calls"

section \<open>TOC remapping (converter.ts, convertCbzToXtc and its siblings)\<close>

record TocEntry =
  title :: string
  startPage :: int
  endPage :: int

text \<open>
  The callback of \<open>metadata.toc.map((entry, index) => ...)\<close>: the end page of a
  non-final entry looks at the next entry of the array being mapped.
\<close>

definition remapTocEntry :: "PageMappingContext \<Rightarrow> TocEntry list \<Rightarrow> nat \<Rightarrow> TocEntry" where
  "remapTocEntry ctx toc index =
     (let totalXtcPages = getTotalXtcPages ctx;
          entry = toc ! index;
          adjustedStartPage = getXtcPage ctx (startPage entry);
          adjustedEndPage =
            (if int index < int (length toc) - 1
             then getXtcPage ctx (startPage (toc ! (index + 1))) - 1
             else totalXtcPages)
      in \<lparr>title = title entry, startPage = adjustedStartPage, endPage = adjustedEndPage\<rparr>)"

definition remapToc :: "PageMappingContext \<Rightarrow> TocEntry list \<Rightarrow> TocEntry list" where
  "remapToc ctx toc =
     (if length toc > 0 then map (remapTocEntry ctx toc) [0..<length toc] else toc)"

section \<open>Conversion options (types.ts, ConverterPage.tsx)\<close>

text \<open>
  JavaScript numbers are modelled as exact reals; the non-finite values (NaN and the
  infinities), which \<open>clampMarginPercent\<close> tests for, are a separate constructor.
  Rounding of IEEE doubles is not modelled; every concrete evaluation below is at inputs
  where the double computation is exact or far from the comparison it feeds.
\<close>

datatype jsnum = Num real | NonFinite

datatype Orientation = Landscape | Portrait
datatype ImageMode = Cover | Letterbox | Fill | Crop
datatype Device = X4 | X3
datatype SourceType = Cbz | Pdf | Image | Video

record ConversionOptions =
  splitMode :: string
  dithering :: string
  contrast :: real
  horizontalMargin :: jsnum
  verticalMargin :: jsnum
  orientation :: Orientation
  is2bit :: bool
  manhwa :: bool
  manhwaOverlap :: real
  sidewaysOverviews :: bool
  includeOverviews :: bool
  padBlack :: bool
  gamma :: real
  imageMode :: ImageMode
  invert :: bool
  videoFps :: real
  device :: Device
  sourceType :: SourceType

text \<open>The initial options of the converter page for a comic archive (\<open>fileType = 'cbz'\<close>).\<close>

definition defaultOptions :: ConversionOptions where
  "defaultOptions =
     \<lparr>splitMode = ''overlap'', dithering = ''stucki'', contrast = 0,
      horizontalMargin = Num 0, verticalMargin = Num 0, orientation = Landscape,
      is2bit = False, manhwa = False, manhwaOverlap = 50, sidewaysOverviews = False,
      includeOverviews = True, padBlack = False, gamma = 1, imageMode = Cover,
      invert = False, videoFps = 1, device = X4, sourceType = Cbz\<rparr>"

text \<open>\<open>DEVICE_DIMENSIONS\<close> (canvas.ts) and \<open>getTargetDimensions\<close> (converter.ts), as (width, height).\<close>

fun DEVICE_DIMENSIONS :: "Device \<Rightarrow> int \<times> int" where
  "DEVICE_DIMENSIONS X4 = (480, 800)"
| "DEVICE_DIMENSIONS X3 = (528, 792)"

definition getTargetDimensions :: "ConversionOptions \<Rightarrow> int \<times> int" where
  "getTargetDimensions options = DEVICE_DIMENSIONS (device options)"

definition getOrientationAngle :: "Orientation \<Rightarrow> int" where
  "getOrientationAngle orient = (if orient = Landscape then 90 else 0)"

section \<open>Axis crop rectangle (geometry.ts)\<close>

text \<open>The fields \<open>x, y, width, height\<close> of the source's \<open>CropRect\<close>.\<close>

record CropRect =
  cropX :: int
  cropY :: int
  cropWidth :: int
  cropHeight :: int

fun clampMarginPercent :: "jsnum \<Rightarrow> real" where
  "clampMarginPercent NonFinite = 0"
| "clampMarginPercent (Num v) = max 0 (min 20 v)"

definition getAxisCropRect :: "int \<Rightarrow> int \<Rightarrow> ConversionOptions \<Rightarrow> CropRect" where
  "getAxisCropRect sourceWidth sourceHeight options =
     (let verticalMarginRaw = (if manhwa options then Num 0 else verticalMargin options);
          hMargin = clampMarginPercent (horizontalMargin options);
          vMargin = clampMarginPercent verticalMarginRaw;
          maxCropX = \<lfloor>(of_int sourceWidth - 1) / (2::real)\<rfloor>;
          maxCropY = \<lfloor>(of_int sourceHeight - 1) / (2::real)\<rfloor>;
          cx = min \<lfloor>of_int sourceWidth * hMargin / 100\<rfloor> maxCropX;
          cy = min \<lfloor>of_int sourceHeight * vMargin / 100\<rfloor> maxCropY
      in \<lparr>cropX = cx, cropY = cy,
          cropWidth = max 1 (sourceWidth - cx * 2),
          cropHeight = max 1 (sourceHeight - cy * 2)\<rparr>)"

section \<open>Overlap segments (image.ts, calculateOverlapSegments)\<close>

record Segment =
  segX :: int
  segY :: int
  segW :: int
  segH :: int

text \<open>
  \<open>Math.floor(segmentHeight - (segmentHeight * numSegments - height) / (numSegments - 1))\<close>.
\<close>

definition segmentShift :: "int \<Rightarrow> int \<Rightarrow> nat \<Rightarrow> int" where
  "segmentShift segmentHeight height numSegments =
     \<lfloor>of_int segmentHeight
        - (of_int segmentHeight * of_nat numSegments - of_int height)
            / (of_nat numSegments - (1::real))\<rfloor>"

text \<open>
  The loop condition \<open>shift / segmentHeight > 0.95\<close>. JavaScript divides by zero to an
  infinity or NaN, and only a positive infinity exceeds 0.95; HOL's \<open>x / 0 = 0\<close> would
  not say so, hence the explicit case.
\<close>

definition shiftRatioTooLarge :: "int \<Rightarrow> int \<Rightarrow> bool" where
  "shiftRatioTooLarge shift segmentHeight =
     (if segmentHeight = 0 then shift > 0
      else (of_int shift :: real) / of_int segmentHeight > 95 / 100)"

function growSegments :: "int \<Rightarrow> int \<Rightarrow> nat \<Rightarrow> int \<Rightarrow> nat \<times> int" where
  "growSegments segmentHeight height numSegments shift =
     (if shiftRatioTooLarge shift segmentHeight \<and> numSegments < 10
      then growSegments segmentHeight height (numSegments + 1)
             (segmentShift segmentHeight height (numSegments + 1))
      else (numSegments, shift))"
  by pat_completeness auto
termination
  by (relation "measure (\<lambda>(segmentHeight, height, numSegments, shift). 10 - numSegments)") auto

declare growSegments.simps [simp del]

definition calculateOverlapSegments :: "int \<Rightarrow> int \<Rightarrow> int \<Rightarrow> int \<Rightarrow> Segment list" where
  "calculateOverlapSegments width height targetWidth targetHeight =
     (let scale = (of_int targetHeight :: real) / of_int width;
          segmentHeight = \<lfloor>of_int targetWidth / scale\<rfloor>;
          (numSegments, shift) =
             growSegments segmentHeight height 3 (segmentShift segmentHeight height 3)
      in map (\<lambda>i. \<lparr>segX = 0, segY = shift * int i, segW = width,
                     segH = (if i = numSegments - 1 then height - shift * int i
                             else segmentHeight)\<rparr>)
           [0..<numSegments])"

section \<open>Per-frame fan-out (converter.ts)\<close>

definition calculateOutputPageCount :: "int \<Rightarrow> int \<Rightarrow> ConversionOptions \<Rightarrow> nat" where
  "calculateOutputPageCount width height options =
     (if manhwa options then 0
      else (if sidewaysOverviews options then 1 else 0)
         + (if includeOverviews options then 1 else 0)
         + (if orientation options = Portrait then 1
            else (let shouldSplit = (width < height \<and> splitMode options \<noteq> ''nosplit'')
                  in if shouldSplit then (if splitMode options = ''overlap'' then 3 else 2)
                     else 1)))"

text \<open>
  \<open>processCanvasAsImage\<close> pushes one encoded page per \<open>results.push\<close>. The model keeps
  the control flow and records, for each pushed page, which raster operation produced
  it; the pixel content plays no part in how many pages are pushed.
\<close>

datatype PageSource =
    SidewaysOverviewPage
  | OverviewPage
  | SingleImagePage int ImageMode
  | ManhwaSlicePage int int
  | PortraitPage
  | SegmentPage int int int int
  | RotatedPage

text \<open>
  The manhwa slicing loop \<open>for (let y = 0; y < newHeight; ) { ... y += sliceStep }\<close>. It
  need not terminate (a slice step of 0), so it is a partial function: \<open>None\<close> stands
  for a run that never returns.
\<close>

partial_function (option) manhwaSlices ::
  "int \<Rightarrow> int \<Rightarrow> int \<Rightarrow> int \<Rightarrow> PageSource list \<Rightarrow> PageSource list option" where
  "manhwaSlices devHeight newHeight sliceStep y results =
     (if y < newHeight then
        (let h0 = min devHeight (newHeight - y);
             y1 = (if h0 < devHeight \<and> newHeight > devHeight then newHeight - devHeight else y);
             h1 = (if h0 < devHeight \<and> newHeight > devHeight then devHeight else h0);
             results1 = results @ [ManhwaSlicePage y1 h1]
         in if y1 + h1 \<ge> newHeight then Some results1
            else manhwaSlices devHeight newHeight sliceStep (y1 + sliceStep) results1)
      else Some results)"

definition processCanvasAsImage ::
  "int \<Rightarrow> int \<Rightarrow> ConversionOptions \<Rightarrow> PageSource list option" where
  "processCanvasAsImage sourceWidth sourceHeight options =
     (let (devWidth, devHeight) = getTargetDimensions options;
          crop = getAxisCropRect sourceWidth sourceHeight options;
          results0 = (if sidewaysOverviews options then [SidewaysOverviewPage] else []);
          results1 = results0 @ (if includeOverviews options then [OverviewPage] else []);
          isSingleImage = (sourceType options = Image \<and> \<not> manhwa options
                           \<and> splitMode options = ''nosplit'')
      in if isSingleImage then
           Some (results1 @ [SingleImagePage (getOrientationAngle (orientation options))
                               (imageMode options)])
         else if manhwa options then
           (let scale = (of_int devWidth :: real) / of_int (cropWidth crop);
                newHeight = \<lfloor>of_int (cropHeight crop) * scale\<rfloor>;
                sliceStep = devHeight - \<lfloor>of_int devHeight * (manhwaOverlap options / 100)\<rfloor>
            in manhwaSlices devHeight newHeight sliceStep 0 results1)
         else if orientation options = Portrait then Some (results1 @ [PortraitPage])
         else if cropWidth crop < cropHeight crop \<and> splitMode options \<noteq> ''nosplit'' then
           (if splitMode options = ''overlap'' then
              Some (results1 @
                map (\<lambda>seg. SegmentPage (segX seg) (segY seg) (segW seg) (segH seg))
                  (calculateOverlapSegments (cropWidth crop) (cropHeight crop) devWidth devHeight))
            else
              (let half = \<lfloor>of_int (cropHeight crop) / (2::real)\<rfloor>
               in Some (results1 @
                    [SegmentPage 0 0 (cropWidth crop) half,
                     SegmentPage 0 half (cropWidth crop) (cropHeight crop - half)])))
         else Some (results1 @ [RotatedPage]))"

section \<open>Manhwa stitcher (manhwa-stitcher.ts)\<close>

text \<open>
  The stitcher keeps a buffer canvas, always of the target width, and a page counter.
  How many pages are cut depends on the height of the buffer only, so the model keeps
  that height, \<open>None\<close> standing for the \<open>null\<close> buffer. Whether a slice is a solid colour
  (\<open>isSolidColor\<close>) depends on its pixels: the model takes the answer as the parameter
  \<open>isSolid\<close>, asked with the number of pages cut before the slice.
\<close>

record ManhwaStitcher =
  stitcherBuffer :: "int option"
  stitcherPageCount :: nat

definition newManhwaStitcher :: ManhwaStitcher where
  "newManhwaStitcher = \<lparr>stitcherBuffer = None, stitcherPageCount = 0\<rparr>"

text \<open>
  The loop \<open>while (this.buffer && this.buffer.height >= this.targetHeight)\<close> of \<open>append\<close>,
  with the number of pages pushed so far. \<open>manhwaOverlap || 50\<close> replaces an overlap
  of 0 by 50. The step is 0 or negative for an overlap of 100 percent or more, and the
  loop then runs forever on slices that are not solid, so it is a partial function:
  \<open>None\<close> stands for a run that never returns.
\<close>

partial_function (option) sliceReadyPages ::
  "(nat \<Rightarrow> bool) \<Rightarrow> ConversionOptions \<Rightarrow> int \<Rightarrow> ManhwaStitcher \<Rightarrow> nat
     \<Rightarrow> (ManhwaStitcher \<times> nat) option" where
  "sliceReadyPages isSolid options targetHeight st pages =
     (case stitcherBuffer st of
        None \<Rightarrow> Some (st, pages)
      | Some height \<Rightarrow>
          if height \<ge> targetHeight then
            (let overlapPercent = (if manhwaOverlap options = 0 then 50
                                   else manhwaOverlap options);
                 overlapPixels = \<lfloor>of_int targetHeight * (overlapPercent / 100)\<rfloor>;
                 step = (if isSolid (stitcherPageCount st) then targetHeight
                         else targetHeight - overlapPixels);
                 pageCount = stitcherPageCount st + 1;
                 remainingHeight = height - step
             in if remainingHeight \<le> 0
                then Some (\<lparr>stitcherBuffer = None, stitcherPageCount = pageCount\<rparr>, pages + 1)
                else sliceReadyPages isSolid options targetHeight
                       \<lparr>stitcherBuffer = Some remainingHeight, stitcherPageCount = pageCount\<rparr>
                       (pages + 1))
          else Some (st, pages))"

text \<open>
  \<open>append\<close>: the source is scaled to the target width, stitched below the buffer, and the
  ready pages are cut. The result is the new state with the number of pages returned.
\<close>

definition stitcherAppend ::
  "(nat \<Rightarrow> bool) \<Rightarrow> ConversionOptions \<Rightarrow> ManhwaStitcher \<Rightarrow> int \<Rightarrow> int
     \<Rightarrow> (ManhwaStitcher \<times> nat) option" where
  "stitcherAppend isSolid options st sourceWidth sourceHeight =
     (let (targetWidth, targetHeight) = DEVICE_DIMENSIONS (device options);
          scale = (of_int targetWidth :: real) / of_int sourceWidth;
          newHeight = \<lfloor>of_int sourceHeight * scale\<rfloor>;
          combinedHeight = (case stitcherBuffer st of None \<Rightarrow> newHeight
                            | Some height \<Rightarrow> height + newHeight)
      in sliceReadyPages isSolid options targetHeight
           (st\<lparr>stitcherBuffer := Some combinedHeight\<rparr>) 0)"

text \<open>\<open>finish\<close>: one padded page when a buffer of positive height is left, none otherwise.\<close>

definition stitcherFinish :: "ManhwaStitcher \<Rightarrow> ManhwaStitcher \<times> nat" where
  "stitcherFinish st =
     (case stitcherBuffer st of
        None \<Rightarrow> (st, 0)
      | Some height \<Rightarrow>
          if height > 0 then (st\<lparr>stitcherPageCount := stitcherPageCount st + 1\<rparr>, 1)
          else (st, 0))"

section \<open>The page loop of the archive converter (converter.ts, convertCbzToXtc)\<close>

text \<open>
  An image file of the archive either decodes to a bitmap of some width and height, or
  does not decode.
\<close>

datatype SourceImage = Bitmap int int | Undecodable

datatype ConversionError = NoImagesFound | ImageDecodeError

text \<open>\<open>getImageDimensions\<close> rejects when the image does not load.\<close>

fun getImageDimensions :: "SourceImage \<Rightarrow> ConversionError + int \<times> int" where
  "getImageDimensions (Bitmap width height) = Inr (width, height)"
| "getImageDimensions Undecodable = Inl ImageDecodeError"

text \<open>
  \<open>processImageAsBinary\<close> draws the bitmap on a canvas of its size and hands it to
  \<open>processCanvasAsImage\<close>; its \<open>catch\<close> turns a failure to decode into no page at all.
\<close>

fun processImageAsBinary :: "SourceImage \<Rightarrow> ConversionOptions \<Rightarrow> PageSource list option" where
  "processImageAsBinary (Bitmap width height) options = processCanvasAsImage width height options"
| "processImageAsBinary Undecodable options = Some []"

text \<open>
  The state the loops work on: the mapping context, the length of \<open>pageInfos\<close> (the page
  infos that size the header and the index and give the result's \<open>pageCount\<close>), and the
  number of encoded pages pushed to \<open>pageBlobs\<close> or written to the stream.
\<close>

record PageLoop =
  mappingCtx :: PageMappingContext
  pageInfos :: nat
  pageBlobs :: nat

definition newPageLoop :: PageLoop where
  "newPageLoop = \<lparr>mappingCtx = newPageMappingContext, pageInfos = 0, pageBlobs = 0\<rparr>"

text \<open>
  Streamed path, pass 1 when \<open>isSimple1to1\<close>: one page info and a mapping of one page per
  file, without looking at the file.
\<close>

fun recordOnePagePerFile :: "SourceImage list \<Rightarrow> nat \<Rightarrow> PageLoop \<Rightarrow> PageLoop" where
  "recordOnePagePerFile [] i s = s"
| "recordOnePagePerFile (img # rest) i s =
     recordOnePagePerFile rest (i + 1)
       (s\<lparr>pageInfos := pageInfos s + 1,
          mappingCtx := addOriginalPage (mappingCtx s) (int i + 1) 1\<rparr>)"

text \<open>
  Streamed path, pass 1 otherwise ("Pass 1: Analysis"): the page count of each file is
  predicted by \<open>calculateOutputPageCount\<close> from the crop rectangle of its dimensions; that
  many page infos are pushed and that count is recorded.
\<close>

fun analysePages ::
  "ConversionOptions \<Rightarrow> SourceImage list \<Rightarrow> nat \<Rightarrow> PageLoop \<Rightarrow> ConversionError + PageLoop" where
  "analysePages options [] i s = Inr s"
| "analysePages options (img # rest) i s =
     (case getImageDimensions img of
        Inl e \<Rightarrow> Inl e
      | Inr (width, height) \<Rightarrow>
          (let crop = getAxisCropRect width height options;
               count = calculateOutputPageCount (cropWidth crop) (cropHeight crop) options
           in analysePages options rest (i + 1)
                (s\<lparr>pageInfos := pageInfos s + count,
                   mappingCtx := addOriginalPage (mappingCtx s) (int i + 1) (int count)\<rparr>)))"

text \<open>
  Streamed path, pass 2 ("Pass 2: Data Processing"): every page that
  \<open>processImageAsBinary\<close> returns for a file is written to the stream.
\<close>

fun writePages :: "ConversionOptions \<Rightarrow> SourceImage list \<Rightarrow> PageLoop \<Rightarrow> PageLoop option" where
  "writePages options [] s = Some s"
| "writePages options (img # rest) s =
     (case processImageAsBinary img options of
        None \<Rightarrow> None
      | Some results \<Rightarrow>
          writePages options rest (s\<lparr>pageBlobs := pageBlobs s + length results\<rparr>))"

text \<open>
  Buffered path in manhwa mode: the files go through the stitcher one by one; the pages
  that \<open>append\<close> returns are pushed and their number is recorded for the file.
  \<open>createImageBitmap\<close> is not guarded here.
\<close>

fun stitchPages ::
  "(nat \<Rightarrow> bool) \<Rightarrow> ConversionOptions \<Rightarrow> SourceImage list \<Rightarrow> nat \<Rightarrow> ManhwaStitcher \<times> PageLoop
     \<Rightarrow> (ConversionError + ManhwaStitcher \<times> PageLoop) option" where
  "stitchPages isSolid options [] i acc = Some (Inr acc)"
| "stitchPages isSolid options (Undecodable # rest) i acc = Some (Inl ImageDecodeError)"
| "stitchPages isSolid options (Bitmap width height # rest) i (stitcher, s) =
     (case stitcherAppend isSolid options stitcher width height of
        None \<Rightarrow> None
      | Some (stitcher', slices) \<Rightarrow>
          stitchPages isSolid options rest (i + 1)
            (stitcher',
             s\<lparr>pageBlobs := pageBlobs s + slices, pageInfos := pageInfos s + slices,
               mappingCtx := addOriginalPage (mappingCtx s) (int i + 1) (int slices)\<rparr>))"

text \<open>
  Buffered path otherwise: the files are processed in batches of six, and the results of
  a batch are sorted by file index before they are pushed and recorded, so pushes and
  recordings happen in file order. Each page of a file is pushed, and the number of its
  pages (\<open>results.length\<close>) is recorded.
\<close>

fun processBatches ::
  "ConversionOptions \<Rightarrow> SourceImage list \<Rightarrow> nat \<Rightarrow> PageLoop \<Rightarrow> PageLoop option" where
  "processBatches options [] globalIdx s = Some s"
| "processBatches options (img # rest) globalIdx s =
     (case processImageAsBinary img options of
        None \<Rightarrow> None
      | Some results \<Rightarrow>
          processBatches options rest (globalIdx + 1)
            (s\<lparr>pageBlobs := pageBlobs s + length results,
               pageInfos := pageInfos s + length results,
               mappingCtx := addOriginalPage (mappingCtx s) (int globalIdx + 1)
                               (int (length results))\<rparr>))"

text \<open>
  What a conversion hands on: the adjusted \<open>metadata.toc\<close> that goes into the header, the
  \<open>pageCount\<close> of the result (the length of \<open>pageInfos\<close>, which also sizes the header and
  the index), and the number of encoded pages written after the header or handed to
  \<open>buildXtcFromBuffers\<close>.
\<close>

record Conversion =
  resultToc :: "TocEntry list"
  resultPageCount :: nat
  resultPagesWritten :: nat

definition finishConversion :: "TocEntry list \<Rightarrow> PageLoop \<Rightarrow> Conversion" where
  "finishConversion toc s =
     \<lparr>resultToc = remapToc (mappingCtx s) toc, resultPageCount = pageInfos s,
      resultPagesWritten = pageBlobs s\<rparr>"

text \<open>
  \<open>convertCbzToXtc\<close> from the sorted image files on. \<open>imageFiles\<close> are the image files of
  the archive in sorted order and \<open>toc\<close> is \<open>metadata.toc\<close> as built from them before the
  loop (one entry per file, titled by its page number). Failures of the download stream
  are outside the model. \<open>streamedDownload\<close> is the option of that name, set by a
  checkbox of the converter page; the declaration of \<open>ConversionOptions\<close> at hand does
  not list it, so it is a parameter of its own.
  \<open>convertCbrToXtc\<close> and \<open>convertPdfToXtc\<close> repeat the same three paths.
\<close>

definition convertCbzToXtc ::
  "(nat \<Rightarrow> bool) \<Rightarrow> bool \<Rightarrow> SourceImage list \<Rightarrow> ConversionOptions \<Rightarrow> TocEntry list
     \<Rightarrow> (ConversionError + Conversion) option" where
  "convertCbzToXtc isSolid streamedDownload imageFiles options toc =
     (if imageFiles = [] then Some (Inl NoImagesFound)
      else if streamedDownload \<and> \<not> manhwa options then
        (let isSimple1to1 = (splitMode options = ''nosplit'' \<and> \<not> sidewaysOverviews options
                             \<and> \<not> includeOverviews options)
         in case (if isSimple1to1 then Inr (recordOnePagePerFile imageFiles 0 newPageLoop)
                  else analysePages options imageFiles 0 newPageLoop) of
              Inl e \<Rightarrow> Some (Inl e)
            | Inr s \<Rightarrow>
                (case writePages options imageFiles s of
                   None \<Rightarrow> None
                 | Some s' \<Rightarrow> Some (Inr (finishConversion toc s'))))
      else if manhwa options then
        (case stitchPages isSolid options imageFiles 0 (newManhwaStitcher, newPageLoop) of
           None \<Rightarrow> None
         | Some (Inl e) \<Rightarrow> Some (Inl e)
         | Some (Inr (stitcher, s)) \<Rightarrow>
             (let finished = snd (stitcherFinish stitcher)
              in Some (Inr (finishConversion toc
                   (s\<lparr>pageBlobs := pageBlobs s + finished,
                      pageInfos := pageInfos s + finished\<rparr>)))))
      else
        (case processBatches options imageFiles 0 newPageLoop of
           None \<Rightarrow> None
         | Some s \<Rightarrow> Some (Inr (finishConversion toc s))))"

section \<open>Dithering (dithering.ts)\<close>

text \<open>
  The pixel array of an \<open>ImageData\<close> (a \<open>Uint8ClampedArray\<close>, four bytes RGBA per
  pixel) is a list of naturals below 256. The repository holds two revisions of the
  dithering module: the one at \<open>src/lib/processing/dithering.ts\<close>, modelled under the
  source's names, and a later one (with \<open>applyDitheringToData\<close>), whose functions carry
  the suffix \<open>_rev\<close>.
\<close>

text \<open>
  The loop \<open>for (i = 0; i < data.length; i += 4) { ... data[i] = data[i+1] = data[i+2] = val }\<close>
  with the new value computed from \<open>data[i]\<close> by \<open>q\<close>. Writes past the end of a typed
  array are dropped.
\<close>

fun thresholdLoop :: "(nat \<Rightarrow> nat) \<Rightarrow> nat list \<Rightarrow> nat list" where
  "thresholdLoop q (r # g # b # a # rest) = q r # q r # q r # a # thresholdLoop q rest"
| "thresholdLoop q [r, g, b] = [q r, q r, q r]"
| "thresholdLoop q [r, g] = [q r, q r]"
| "thresholdLoop q [r] = [q r]"
| "thresholdLoop q [] = []"

definition applyThreshold :: "nat list \<Rightarrow> bool \<Rightarrow> nat list" where
  "applyThreshold data twoBit =
     thresholdLoop
       (\<lambda>val. if twoBit then
                 (if val < 42 then 0
                  else if val < 127 then 1
                  else if val < 212 then 2
                  else 255)
               else (if val < 128 then 0 else 255))
       data"

definition applyThreshold_rev :: "nat list \<Rightarrow> bool \<Rightarrow> nat list" where
  "applyThreshold_rev data twoBit =
     (if twoBit then
        thresholdLoop
          (\<lambda>val. if val < 42 then 0
                  else if val < 127 then 85
                  else if val < 212 then 170
                  else 255)
          data
      else thresholdLoop (\<lambda>val. if val < 128 then 0 else 255) data)"

subsection \<open>Error diffusion\<close>

text \<open>
  The error buffer is a \<open>Float32Array\<close>, modelled as a list of exact reals. The inline
  quantizer of every diffusion loop:
\<close>

definition quantizeLevel :: "bool \<Rightarrow> real \<Rightarrow> real" where
  "quantizeLevel twoBit oldVal =
     (if twoBit then
        (if oldVal < 42 then 0
         else if oldVal < 127 then 85
         else if oldVal < 212 then 170
         else 255)
      else (if oldVal < 128 then 0 else 255))"

text \<open>
  JavaScript's \<open>a >> k\<close> first converts \<open>a\<close> to a signed 32-bit integer (truncating the
  fraction towards zero and wrapping modulo \<open>2^32\<close>), then shifts arithmetically.
\<close>

definition toInt32 :: "real \<Rightarrow> int" where
  "toInt32 v =
     (let t = (if v \<ge> 0 then \<lfloor>v\<rfloor> else - \<lfloor>- v\<rfloor>);
          m = t mod 2 ^ 32
      in if m \<ge> 2 ^ 31 then m - 2 ^ 32 else m)"

definition shiftRight :: "real \<Rightarrow> nat \<Rightarrow> real" where
  "shiftRight v k = of_int (toInt32 v div 2 ^ k)"

definition addTo :: "real list \<Rightarrow> nat \<Rightarrow> real \<Rightarrow> real list" where
  "addTo buf i v = buf[i := buf ! i + v]"

text \<open>The order in which the nested loops visit the pixels, as (x, y).\<close>

definition scanOrder :: "nat \<Rightarrow> nat \<Rightarrow> (nat \<times> nat) list" where
  "scanOrder width height = concat (map (\<lambda>y. map (\<lambda>x. (x, y)) [0..<width]) [0..<height])"

text \<open>\<open>data[i] = pixels[i * 4]\<close> for every pixel.\<close>

definition loadGray :: "nat list \<Rightarrow> nat \<Rightarrow> nat \<Rightarrow> real list" where
  "loadGray pixels width height = map (\<lambda>i. real (pixels ! (i * 4))) [0..<width * height]"

text \<open>
  Storing a number into a \<open>Uint8ClampedArray\<close> clamps it to 0..255 and rounds to the
  nearest integer, ties to even.
\<close>

definition toUint8Clamped :: "real \<Rightarrow> nat" where
  "toUint8Clamped v =
     (let c = max 0 (min 255 v); f = \<lfloor>c\<rfloor>; d = c - of_int f
      in nat (if d < 1 / 2 then f else if d > 1 / 2 then f + 1
              else if even f then f else f + 1))"

text \<open>
  The final loop \<open>pixels[i*4] = pixels[i*4+1] = pixels[i*4+2] = clamp(data[i])\<close>.
\<close>

definition storeGray :: "nat list \<Rightarrow> real list \<Rightarrow> nat list" where
  "storeGray pixels buf =
     foldl (\<lambda>p i. let val = toUint8Clamped (max 0 (min 255 (buf ! i)))
                   in p[i * 4 := val, i * 4 + 1 := val, i * 4 + 2 := val])
       pixels [0..<length buf]"

text \<open>
  One visit of the Floyd-Steinberg loop body in \<open>dithering.ts\<close> (the same body as
  \<open>ditherFloydSteinberg\<close> in \<open>xtc_converter.js\<close>): the diffused terms are
  \<open>(err * 7) >> 4\<close>, \<open>(err * 3) >> 4\<close>, \<open>(err * 5) >> 4\<close> and \<open>(err * 1) >> 4\<close>.
\<close>

definition floydSteinbergVisit ::
  "nat \<Rightarrow> nat \<Rightarrow> bool \<Rightarrow> real list \<Rightarrow> nat \<times> nat \<Rightarrow> real list" where
  "floydSteinbergVisit width height twoBit buf p =
     (let x = fst p; y = snd p; stride = width;
          idx = y * stride + x;
          oldVal = buf ! idx;
          newVal = quantizeLevel twoBit oldVal;
          buf0 = buf[idx := newVal];
          err = oldVal - newVal;
          buf1 = (if x + 1 < width then addTo buf0 (idx + 1) (shiftRight (err * 7) 4) else buf0)
      in if y + 1 < height then
           (let buf2 = (if x > 0 then addTo buf1 (idx + stride - 1) (shiftRight (err * 3) 4)
                        else buf1);
                buf3 = addTo buf2 (idx + stride) (shiftRight (err * 5) 4)
            in if x + 1 < width then addTo buf3 (idx + stride + 1) (shiftRight (err * 1) 4)
               else buf3)
         else buf1)"

definition applyFloydSteinberg :: "nat list \<Rightarrow> nat \<Rightarrow> nat \<Rightarrow> bool \<Rightarrow> nat list" where
  "applyFloydSteinberg pixels width height twoBit =
     storeGray pixels
       (foldl (floydSteinbergVisit width height twoBit) (loadGray pixels width height)
          (scanOrder width height))"

text \<open>The later revision divides: \<open>(err * 7) / 16\<close> and so on.\<close>

definition floydSteinbergVisit_rev ::
  "nat \<Rightarrow> nat \<Rightarrow> bool \<Rightarrow> real list \<Rightarrow> nat \<times> nat \<Rightarrow> real list" where
  "floydSteinbergVisit_rev width height twoBit buf p =
     (let x = fst p; y = snd p; stride = width;
          idx = y * stride + x;
          oldVal = buf ! idx;
          newVal = quantizeLevel twoBit oldVal;
          buf0 = buf[idx := newVal];
          err = oldVal - newVal;
          buf1 = (if x + 1 < width then addTo buf0 (idx + 1) ((err * 7) / 16) else buf0)
      in if y + 1 < height then
           (let buf2 = (if x > 0 then addTo buf1 (idx + stride - 1) ((err * 3) / 16)
                        else buf1);
                buf3 = addTo buf2 (idx + stride) ((err * 5) / 16)
            in if x + 1 < width then addTo buf3 (idx + stride + 1) ((err * 1) / 16)
               else buf3)
         else buf1)"

definition applyFloydSteinberg_rev :: "nat list \<Rightarrow> nat \<Rightarrow> nat \<Rightarrow> bool \<Rightarrow> nat list" where
  "applyFloydSteinberg_rev pixels width height twoBit =
     storeGray pixels
       (foldl (floydSteinbergVisit_rev width height twoBit) (loadGray pixels width height)
          (scanOrder width height))"

section \<open>Fused filter pass (image.ts, applyUnifiedFilters; converter.ts, processAndEncode)\<close>

text \<open>\<open>Math.round\<close> rounds to the nearest integer, halves upwards.\<close>

definition mathRound :: "real \<Rightarrow> int" where
  "mathRound v = \<lfloor>v + 1 / 2\<rfloor>"

definition luminosity :: "real \<Rightarrow> real \<Rightarrow> real \<Rightarrow> real" where
  "luminosity r g b = 299 / 1000 * r + 587 / 1000 * g + 114 / 1000 * b"

text \<open>
  The pixels of the array as (r, g, b) triples, one per step \<open>i += 4\<close> of the loops. An
  \<open>ImageData\<close> array always holds whole RGBA quadruples; a shorter tail is not read.
\<close>

fun rgbPixels :: "nat list \<Rightarrow> (nat \<times> nat \<times> nat) list" where
  "rgbPixels (r # g # b # a # rest) = (r, g, b) # rgbPixels rest"
| "rgbPixels _ = []"

text \<open>The 256-bin histogram of rounded luminosity, as a function from bin to count.\<close>

definition histogramOf :: "nat list \<Rightarrow> int \<Rightarrow> nat" where
  "histogramOf data bin =
     length (filter (\<lambda>(r, g, b). mathRound (luminosity (real r) (real g) (real b)) = bin)
               (rgbPixels data))"

text \<open>
  The two cut-off loops \<open>for (...) { count += histogram[i]; if (count >= threshold)
  { point = i; break } }\<close>, over the bins in the order given; \<open>dflt\<close> is the initial
  value of the point.
\<close>

fun cutoffPoint :: "(int \<Rightarrow> nat) \<Rightarrow> real \<Rightarrow> nat \<Rightarrow> int list \<Rightarrow> int \<Rightarrow> int" where
  "cutoffPoint hist threshold count [] dflt = dflt"
| "cutoffPoint hist threshold count (i # bins) dflt =
     (if real (count + hist i) \<ge> threshold then i
      else cutoffPoint hist threshold (count + hist i) bins dflt)"

text \<open>
  \<open>gammaLut[i] = Math.round(Math.pow(i / 255, gamma) * 255)\<close>, stored in a
  \<open>Uint8Array\<close> (modulo 256). \<open>Math.pow\<close> is the real power.
\<close>

definition gammaLut :: "real \<Rightarrow> nat \<Rightarrow> nat" where
  "gammaLut gam i = nat (mathRound ((real i / 255) powr gam * 255) mod 256)"

definition stretchChannel :: "int \<Rightarrow> int \<Rightarrow> real \<Rightarrow> real" where
  "stretchChannel blackPoint rng c =
     max 0 (min 255 (((c - of_int blackPoint) / of_int rng) * 255))"

text \<open>
  The luminosity the single pass computes for one pixel, from the possibly inverted and
  stretched channels.
\<close>

definition filteredLuminosity ::
  "real \<Rightarrow> bool \<Rightarrow> int \<Rightarrow> int \<Rightarrow> nat \<times> nat \<times> nat \<Rightarrow> real" where
  "filteredLuminosity contr invrt blackPoint rng p =
     (let r0 = real (fst p); g0 = real (fst (snd p)); b0 = real (snd (snd p));
          r1 = (if invrt then 255 - r0 else r0);
          g1 = (if invrt then 255 - g0 else g0);
          b1 = (if invrt then 255 - b0 else b0);
          r2 = (if contr > 0 \<and> rng > 0 then stretchChannel blackPoint rng r1 else r1);
          g2 = (if contr > 0 \<and> rng > 0 then stretchChannel blackPoint rng g1 else g1);
          b2 = (if contr > 0 \<and> rng > 0 then stretchChannel blackPoint rng b1 else b1)
      in luminosity r2 g2 b2)"

text \<open>
  The gray value written back for one pixel: through the LUT if \<open>gamma !== 1.0\<close>,
  otherwise the luminosity itself, stored into the clamped byte array.
\<close>

definition filteredGray ::
  "real \<Rightarrow> real \<Rightarrow> bool \<Rightarrow> int \<Rightarrow> int \<Rightarrow> nat \<times> nat \<times> nat \<Rightarrow> nat" where
  "filteredGray contr gam invrt blackPoint rng p =
     (let gray = filteredLuminosity contr invrt blackPoint rng p
      in if gam \<noteq> 1 then gammaLut gam (nat (mathRound gray))
         else toUint8Clamped gray)"

fun filterLoop :: "((nat \<times> nat \<times> nat) \<Rightarrow> nat) \<Rightarrow> nat list \<Rightarrow> nat list" where
  "filterLoop f (r # g # b # a # rest) =
     f (r, g, b) # f (r, g, b) # f (r, g, b) # a # filterLoop f rest"
| "filterLoop f rest = rest"

definition contrastPoints :: "nat list \<Rightarrow> real \<Rightarrow> int \<times> int" where
  "contrastPoints data contr =
     (if contr > 0 then
        (let totalPixels = real (length data) / 4;
             blackThreshold = totalPixels * (3 * contr) / 100;
             whiteThreshold = totalPixels * (3 + 9 * contr) / 100;
             blackPoint = cutoffPoint (histogramOf data) blackThreshold 0 [0..255] 0;
             whitePoint = cutoffPoint (histogramOf data) whiteThreshold 0 (rev [0..255]) 255
         in (blackPoint, whitePoint - blackPoint))
      else (0, 255))"

definition applyUnifiedFilters :: "nat list \<Rightarrow> real \<Rightarrow> real \<Rightarrow> bool \<Rightarrow> nat list" where
  "applyUnifiedFilters data contr gam invrt =
     (let (blackPoint, rng) = contrastPoints data contr
      in filterLoop (filteredGray contr gam invrt blackPoint rng) data)"

text \<open>
  The filter call of \<open>processAndEncode\<close>: the options object it passes is
  \<open>{contrast: options.contrast, gamma: options.is2bit ? options.gamma : 1.0,
  invert: options.invert}\<close>.
\<close>

definition processAndEncodeFilters :: "ConversionOptions \<Rightarrow> nat list \<Rightarrow> nat list" where
  "processAndEncodeFilters options data =
     applyUnifiedFilters data (contrast options)
       (if is2bit options then gamma options else 1) (invert options)"

section \<open>Byte buffers (DataView and Uint8Array)\<close>

text \<open>
  A buffer is a list of bytes (naturals below 256). The \<open>DataView\<close> setters and
  \<open>Uint8Array.set\<close> throw a RangeError when the write does not fit; \<open>None\<close> stands for
  that throw. All integers are written little-endian, reduced modulo their width.
\<close>

definition setBytes :: "nat list \<Rightarrow> nat \<Rightarrow> nat list \<Rightarrow> nat list option" where
  "setBytes buf off bs =
     (if off + length bs \<le> length buf
      then Some (take off buf @ bs @ drop (off + length bs) buf)
      else None)"

definition u16le :: "nat \<Rightarrow> nat list" where
  "u16le v = [v mod 256, v div 256 mod 256]"

definition u32le :: "nat \<Rightarrow> nat list" where
  "u32le v = [v mod 256, v div 256 mod 256, v div 65536 mod 256, v div 16777216 mod 256]"

definition setUint16 :: "nat list \<Rightarrow> nat \<Rightarrow> nat \<Rightarrow> nat list option" where
  "setUint16 buf off v = setBytes buf off (u16le v)"

definition setUint32 :: "nat list \<Rightarrow> nat \<Rightarrow> nat \<Rightarrow> nat list option" where
  "setUint32 buf off v = setBytes buf off (u32le v)"

text \<open>\<open>setBigUint64\<close> of the source: the low and the high 32 bits as two \<open>setUint32\<close>.\<close>

definition setBigUint64 :: "nat list \<Rightarrow> nat \<Rightarrow> nat \<Rightarrow> nat list option" where
  "setBigUint64 buf off v =
     do { buf1 \<leftarrow> setUint32 buf off (v mod 2 ^ 32);
          setUint32 buf1 (off + 4) (v div 2 ^ 32) }"

text \<open>The getters throw a RangeError (\<open>None\<close>) when the read does not fit.\<close>

definition getUint16 :: "nat list \<Rightarrow> nat \<Rightarrow> nat option" where
  "getUint16 buf off =
     (if off + 2 \<le> length buf then Some (buf ! off + 256 * buf ! (off + 1)) else None)"

definition getUint32 :: "nat list \<Rightarrow> nat \<Rightarrow> nat option" where
  "getUint32 buf off =
     (if off + 4 \<le> length buf
      then Some (buf ! off + 256 * buf ! (off + 1) + 65536 * buf ! (off + 2)
                 + 16777216 * buf ! (off + 3))
      else None)"

definition getBigUint64 :: "nat list \<Rightarrow> nat \<Rightarrow> nat option" where
  "getBigUint64 buf off =
     do { low \<leftarrow> getUint32 buf off;
          high \<leftarrow> getUint32 buf (off + 4);
          Some (low + high * 2 ^ 32) }"

section \<open>Container writer (xtc-format.ts)\<close>

text \<open>
  Book metadata. The optional strings \<open>title\<close>, \<open>author\<close>, \<open>publisher\<close> and
  \<open>language\<close> are only ever tested for truthiness, so an absent string and the empty
  string are both \<open>[]\<close>; strings are their UTF-8 bytes (\<open>TextEncoder\<close>). The optional
  numbers are options.
\<close>

record BookMetadata =
  bookTitle :: string
  author :: string
  publisher :: string
  language :: string
  createTime :: "nat option"
  coverPage :: "nat option"
  toc :: "TocEntry list"

definition HEADER_BASE_SIZE :: nat where "HEADER_BASE_SIZE = 48"
definition HEADER_WITH_METADATA_SIZE :: nat where "HEADER_WITH_METADATA_SIZE = 56"
definition INDEX_ENTRY_SIZE :: nat where "INDEX_ENTRY_SIZE = 16"
definition TITLE_SIZE :: nat where "TITLE_SIZE = 128"
definition AUTHOR_SIZE :: nat where "AUTHOR_SIZE = 64"
definition PUBLISHER_SIZE :: nat where "PUBLISHER_SIZE = 32"
definition LANGUAGE_SIZE :: nat where "LANGUAGE_SIZE = 16"
definition TOC_HEADER_SIZE :: nat where "TOC_HEADER_SIZE = 16"
definition TOC_ENTRY_SIZE :: nat where "TOC_ENTRY_SIZE = 96"
definition TOC_TITLE_SIZE :: nat where "TOC_TITLE_SIZE = 80"
definition FLAG_HAS_METADATA_LOW :: nat where "FLAG_HAS_METADATA_LOW = 16777472"
definition FLAG_HAS_METADATA_HIGH :: nat where "FLAG_HAS_METADATA_HIGH = 1"

definition encodeText :: "string \<Rightarrow> nat list" where
  "encodeText s = map of_char s"

text \<open>
  \<open>if (s) { bytes = encode(s); uint8.set(bytes.subarray(0, min(bytes.length, size - 1)), offset) }\<close>
\<close>

definition writeText :: "nat list \<Rightarrow> nat \<Rightarrow> nat \<Rightarrow> string \<Rightarrow> nat list option" where
  "writeText buf off fieldSize s =
     (if s \<noteq> [] then setBytes buf off (take (min (length s) (fieldSize - 1)) (encodeText s))
      else Some buf)"

text \<open>
  \<open>writeTocHeader\<close>. The timestamp is \<open>createTime || Math.floor(Date.now() / 1000)\<close>:
  the clock reading, in seconds, is the parameter \<open>now\<close>; an absent and a zero
  \<open>createTime\<close> are both falsy.
\<close>

definition tocTimestamp :: "nat \<Rightarrow> nat option \<Rightarrow> nat" where
  "tocTimestamp now ct = (case ct of None \<Rightarrow> now | Some t \<Rightarrow> if t = 0 then now else t)"

definition writeTocHeader ::
  "nat \<Rightarrow> nat list \<Rightarrow> nat \<Rightarrow> nat \<Rightarrow> nat option \<Rightarrow> nat option \<Rightarrow> nat list option" where
  "writeTocHeader now buf off chapterCount cover ct =
     do { buf1 \<leftarrow> setUint32 buf off (tocTimestamp now ct);
          buf2 \<leftarrow> setUint16 buf1 (off + 4) (case cover of Some c \<Rightarrow> c | None \<Rightarrow> 65535);
          setUint16 buf2 (off + 6) chapterCount }"

fun writeTocEntries :: "nat list \<Rightarrow> nat \<Rightarrow> TocEntry list \<Rightarrow> nat list option" where
  "writeTocEntries buf entryOffset [] = Some buf"
| "writeTocEntries buf entryOffset (entry # rest) =
     do { buf1 \<leftarrow> setBytes buf entryOffset
                   (take (min (length (title entry)) (TOC_TITLE_SIZE - 1))
                      (encodeText (title entry)));
          buf2 \<leftarrow> setUint16 buf1 (entryOffset + TOC_TITLE_SIZE)
                   (nat (startPage entry mod 65536));
          buf3 \<leftarrow> setUint16 buf2 (entryOffset + TOC_TITLE_SIZE + 2)
                   (nat (endPage entry mod 65536));
          writeTocEntries buf3 (entryOffset + TOC_ENTRY_SIZE) rest }"

definition writeMetadata :: "nat \<Rightarrow> nat list \<Rightarrow> nat \<Rightarrow> BookMetadata \<Rightarrow> nat list option" where
  "writeMetadata now buf off metadata =
     do { buf1 \<leftarrow> writeText buf off TITLE_SIZE (bookTitle metadata);
          buf2 \<leftarrow> writeText buf1 (off + TITLE_SIZE) AUTHOR_SIZE (author metadata);
          buf3 \<leftarrow> writeText buf2 (off + TITLE_SIZE + AUTHOR_SIZE) PUBLISHER_SIZE
                   (publisher metadata);
          buf4 \<leftarrow> writeText buf3 (off + TITLE_SIZE + AUTHOR_SIZE + PUBLISHER_SIZE)
                   LANGUAGE_SIZE (language metadata);
          buf5 \<leftarrow> writeTocHeader now buf4
                   (off + TITLE_SIZE + AUTHOR_SIZE + PUBLISHER_SIZE + LANGUAGE_SIZE)
                   (length (toc metadata)) (coverPage metadata) (createTime metadata);
          if length (toc metadata) > 0
          then writeTocEntries buf5
                 (off + TITLE_SIZE + AUTHOR_SIZE + PUBLISHER_SIZE + LANGUAGE_SIZE
                    + TOC_HEADER_SIZE)
                 (toc metadata)
          else Some buf5 }"

text \<open>
  The index loop of \<open>buildXtcFromBuffers\<close>: width and height are read from bytes 4 and
  6 of each chunk, the size is the chunk's byte length.
\<close>

fun writeIndexEntries :: "nat list \<Rightarrow> nat \<Rightarrow> nat \<Rightarrow> nat list list \<Rightarrow> nat list option" where
  "writeIndexEntries buf entryOffset relOffset [] = Some buf"
| "writeIndexEntries buf entryOffset relOffset (blob # rest) =
     do { w \<leftarrow> getUint16 blob 4;
          h \<leftarrow> getUint16 blob 6;
          buf1 \<leftarrow> setBigUint64 buf entryOffset relOffset;
          buf2 \<leftarrow> setUint32 buf1 (entryOffset + 8) (length blob);
          buf3 \<leftarrow> setUint16 buf2 (entryOffset + 12) w;
          buf4 \<leftarrow> setUint16 buf3 (entryOffset + 14) h;
          writeIndexEntries buf4 (entryOffset + INDEX_ENTRY_SIZE) (relOffset + length blob) rest }"

fun writePageData :: "nat list \<Rightarrow> nat \<Rightarrow> nat list list \<Rightarrow> nat list option" where
  "writePageData buf writeOffset [] = Some buf"
| "writePageData buf writeOffset (blob # rest) =
     do { buf1 \<leftarrow> setBytes buf writeOffset blob;
          writePageData buf1 (writeOffset + length blob) rest }"

definition hasMetadataOf :: "BookMetadata option \<Rightarrow> bool" where
  "hasMetadataOf m =
     (case m of None \<Rightarrow> False
      | Some metadata \<Rightarrow>
          bookTitle metadata \<noteq> [] \<or> author metadata \<noteq> [] \<or> publisher metadata \<noteq> []
          \<or> language metadata \<noteq> [] \<or> length (toc metadata) > 0)"

definition buildXtcFromBuffers ::
  "nat \<Rightarrow> nat list list \<Rightarrow> BookMetadata option \<Rightarrow> bool \<Rightarrow> nat list option" where
  "buildXtcFromBuffers now xtgBlobs metadataOpt twoBit =
     (let pageCount = length xtgBlobs;
          hasMetadata = hasMetadataOf metadataOpt;
          metadataSize =
            (if hasMetadata
             then TITLE_SIZE + AUTHOR_SIZE + PUBLISHER_SIZE + LANGUAGE_SIZE + TOC_HEADER_SIZE
                  + length (toc (the metadataOpt)) * TOC_ENTRY_SIZE
             else 0);
          tocEntriesOffset =
            (if hasMetadata
             then HEADER_WITH_METADATA_SIZE + TITLE_SIZE + AUTHOR_SIZE + PUBLISHER_SIZE
                  + LANGUAGE_SIZE + TOC_HEADER_SIZE
             else 0);
          headerSize = (if hasMetadata then HEADER_WITH_METADATA_SIZE else HEADER_BASE_SIZE);
          metadataOffset = (if hasMetadata then HEADER_WITH_METADATA_SIZE else 0);
          indexOffset = headerSize + metadataSize;
          dataOffset = indexOffset + pageCount * INDEX_ENTRY_SIZE;
          totalSize = dataOffset + sum_list (map length xtgBlobs);
          buffer = replicate totalSize 0
      in do {
          b1 \<leftarrow> setBytes buffer 0 (if twoBit then [88, 84, 67, 72] else [88, 84, 67, 0]);
          b2 \<leftarrow> setUint16 b1 4 1;
          b3 \<leftarrow> setUint16 b2 6 pageCount;
          b4 \<leftarrow> setUint32 b3 8 (if hasMetadata then FLAG_HAS_METADATA_LOW else 0);
          b5 \<leftarrow> setUint32 b4 12 (if hasMetadata then FLAG_HAS_METADATA_HIGH else 0);
          b6 \<leftarrow> setBigUint64 b5 16 metadataOffset;
          b7 \<leftarrow> setBigUint64 b6 24 indexOffset;
          b8 \<leftarrow> setBigUint64 b7 32 dataOffset;
          b9 \<leftarrow> setBigUint64 b8 40 0;
          b10 \<leftarrow> (if hasMetadata then setBigUint64 b9 48 tocEntriesOffset else Some b9);
          b11 \<leftarrow> (if hasMetadata
                   then writeMetadata now b10 HEADER_WITH_METADATA_SIZE (the metadataOpt)
                   else Some b10);
          b12 \<leftarrow> writeIndexEntries b11 indexOffset dataOffset xtgBlobs;
          writePageData b12 dataOffset xtgBlobs })"

text \<open>
  Sample inputs for the concrete evaluations below: metadata with a title and a given
  \<open>createTime\<close>, and the XTG chunk of a single white pixel.
\<close>

definition exampleMetadata :: "nat option \<Rightarrow> BookMetadata" where
  "exampleMetadata ct =
     \<lparr>bookTitle = ''T'', author = [], publisher = [], language = [],
      createTime = ct, coverPage = None, toc = []\<rparr>"

definition examplePage :: "nat list" where
  "examplePage = [88, 84, 71, 0, 1, 0, 1, 0, 0, 0, 1, 0, 0, 0, 128, 0, 0, 0, 0, 0, 0, 0, 128]"

section \<open>Container reader (xtc-reader.ts)\<close>

text \<open>
  The reader throws in two ways: \<open>Error('Invalid XTC file: bad magic number')\<close>, and
  the RangeError of a \<open>DataView\<close> getter or of a \<open>Uint8Array\<close> view that does not fit
  the buffer. (The page decoder further below can also meet the IndexSizeError of
  \<open>createImageData\<close> for an empty image.) Offsets are 64-bit values converted with \<open>Number\<close>; the conversion is
  exact below \<open>2^53\<close>, and any larger offset is out of range before and after rounding.
\<close>

datatype error = BadMagicError | RangeError | IndexSizeError


record XtcIndexEntry =
  entryOffset :: nat
  entrySize :: nat
  entryWidth :: nat
  entryHeight :: nat









definition parseIndexEntry :: "nat list \<Rightarrow> nat \<Rightarrow> XtcIndexEntry option" where
  "parseIndexEntry buf off =
     do { ofs \<leftarrow> getBigUint64 buf off;
          s \<leftarrow> getUint32 buf (off + 8);
          w \<leftarrow> getUint16 buf (off + 12);
          h \<leftarrow> getUint16 buf (off + 14);
          Some \<lparr>entryOffset = ofs, entrySize = s, entryWidth = w, entryHeight = h\<rparr> }"

fun parseIndexEntries :: "nat list \<Rightarrow> nat \<Rightarrow> nat \<Rightarrow> XtcIndexEntry list option" where
  "parseIndexEntries buf entryOff 0 = Some []"
| "parseIndexEntries buf entryOff (Suc n) =
     do { e \<leftarrow> parseIndexEntry buf entryOff;
          rest \<leftarrow> parseIndexEntries buf (entryOff + 16) n;
          Some (e # rest) }"



text \<open>
  A 64-byte file for the evaluations below: a header without metadata, index at 48,
  data offset 64, and one index entry with offset 1000, size 10, width 480, height 800.
\<close>

definition danglingIndexFile :: "nat list" where
  "danglingIndexFile =
     [88, 84, 67, 0, 1, 0, 1, 0, 0, 0, 0, 0, 0, 0, 0, 0,
      0, 0, 0, 0, 0, 0, 0, 0, 48, 0, 0, 0, 0, 0, 0, 0,
      64, 0, 0, 0, 0, 0, 0, 0, 0, 0, 0, 0, 0, 0, 0, 0,
      232, 3, 0, 0, 0, 0, 0, 0, 10, 0, 0, 0, 224, 1, 32, 3]"

section \<open>Page packers (xtc-format.ts) and page decoder (xtc-reader.ts)\<close>

record ImageData =
  imgWidth :: nat
  imgHeight :: nat
  imgData :: "nat list"

text \<open>
  Reading a typed array past its end gives \<open>undefined\<close>, which fails every \<open>>=\<close>
  comparison and shifts to 0, exactly as the byte 0 does.
\<close>

definition pixelByte :: "nat list \<Rightarrow> nat \<Rightarrow> nat" where
  "pixelByte d idx = (if idx < length d then d ! idx else 0)"

text \<open>\<open>arr[byteIndex] |= 1 << bitIndex\<close> on a \<open>Uint8Array\<close>.\<close>

definition orBit :: "nat list \<Rightarrow> nat \<Rightarrow> nat \<Rightarrow> nat list" where
  "orBit arr byteIndex bitIndex =
     arr[byteIndex := (arr ! byteIndex OR push_bit bitIndex 1) mod 256]"

subsection \<open>XTG: one bit per pixel, row-major, most significant bit first\<close>

definition xtgPixelData :: "ImageData \<Rightarrow> nat list" where
  "xtgPixelData img =
     (let w = imgWidth img; h = imgHeight img; rowBytes = (w + 7) div 8
      in foldl (\<lambda>pixelData (x, y).
                  let idx = (y * w + x) * 4;
                      byteIndex = y * rowBytes + x div 8;
                      bitIndex = 7 - x mod 8
                  in if pixelByte (imgData img) idx \<ge> 128
                     then orBit pixelData byteIndex bitIndex else pixelData)
           (replicate (rowBytes * h) 0) (scanOrder w h))"

text \<open>
  The chunk is a fresh buffer of 22 header bytes followed by the payload; the header
  fields are written to adjacent ranges, so the buffer is their concatenation. The
  digest of an XTG chunk is the first 8 payload bytes (zero-padded).
\<close>

definition imageDataToXtg :: "ImageData \<Rightarrow> nat list" where
  "imageDataToXtg img =
     (let pixelData = xtgPixelData img;
          md5digest = take 8 pixelData @ replicate (8 - min 8 (length pixelData)) 0
      in [88, 84, 71, 0] @ u16le (imgWidth img) @ u16le (imgHeight img) @ [0] @ [0]
         @ u32le (length pixelData) @ md5digest @ pixelData)"

subsection \<open>XTH: two bit planes, columns right to left, vertical scan\<close>

definition xthLevel :: "nat \<Rightarrow> nat" where
  "xthLevel gray =
     (if gray \<ge> 212 then 0 else if gray \<ge> 127 then 1 else if gray \<ge> 42 then 2 else 3)"

text \<open>The loops run over \<open>x\<close> outside and \<open>y\<close> inside.\<close>

definition columnOrder :: "nat \<Rightarrow> nat \<Rightarrow> (nat \<times> nat) list" where
  "columnOrder width height = concat (map (\<lambda>x. map (\<lambda>y. (x, y)) [0..<height]) [0..<width])"

definition xthPlanes :: "ImageData \<Rightarrow> nat list \<times> nat list" where
  "xthPlanes img =
     (let w = imgWidth img; h = imgHeight img; colBytes = (h + 7) div 8;
          planeSize = colBytes * w
      in foldl (\<lambda>(p0, p1) (x, y).
                  let targetCol = w - 1 - x;
                      colOffset = targetCol * colBytes;
                      idx = (y * w + x) * 4;
                      val = xthLevel (pixelByte (imgData img) idx);
                      byteIdx = colOffset + y div 8;
                      bitIdx = 7 - y mod 8
                  in (if val AND 1 \<noteq> 0 then orBit p0 byteIdx bitIdx else p0,
                      if val AND 2 \<noteq> 0 then orBit p1 byteIdx bitIdx else p1))
           (replicate planeSize 0, replicate planeSize 0) (columnOrder w h))"

definition imageDataToXth :: "ImageData \<Rightarrow> nat list" where
  "imageDataToXth img =
     (let p0 = fst (xthPlanes img); p1 = snd (xthPlanes img);
          digest = map (\<lambda>i. pixelByte p0 i XOR pixelByte p1 i) [0..<8]
      in [88, 84, 72, 0] @ u16le (imgWidth img) @ u16le (imgHeight img) @ [0] @ [0]
         @ u32le (length p0 * 2) @ digest @ p0 @ p1)"

subsection \<open>Decoder\<close>

text \<open>
  \<open>decodeXtcPageToCanvas\<close>. Every pixel's four bytes are written exactly once, so the
  pixel array is given pixel by pixel in row-major order, whichever way the loops run.
  \<open>createImageData\<close> throws an IndexSizeError for a zero width or height.
\<close>

definition xtgColor :: "nat list \<Rightarrow> nat \<Rightarrow> nat \<Rightarrow> nat \<Rightarrow> nat" where
  "xtgColor pixelData w x y =
     (let rowBytes = (w + 7) div 8;
          byteIndex = y * rowBytes + x div 8;
          bitIndex = 7 - x mod 8;
          b = drop_bit bitIndex (pixelByte pixelData byteIndex) AND 1
      in if b \<noteq> 0 then 255 else 0)"

definition xthColor :: "nat list \<Rightarrow> nat list \<Rightarrow> nat \<Rightarrow> nat \<Rightarrow> nat \<Rightarrow> nat \<Rightarrow> nat" where
  "xthColor p0 p1 w h x y =
     (let colBytes = (h + 7) div 8;
          targetCol = w - 1 - x;
          colOffset = targetCol * colBytes;
          byteIdx = colOffset + y div 8;
          bitIdx = 7 - y mod 8;
          bit0 = drop_bit bitIdx (pixelByte p0 byteIdx) AND 1;
          bit1 = drop_bit bitIdx (pixelByte p1 byteIdx) AND 1;
          val = bit0 OR push_bit 1 bit1
      in if val = 0 then 255 else if val = 1 then 170 else if val = 2 then 85 else 0)"

definition paintPixels :: "nat \<Rightarrow> nat \<Rightarrow> (nat \<Rightarrow> nat \<Rightarrow> nat) \<Rightarrow> nat list" where
  "paintPixels w h color =
     concat (map (\<lambda>i. let c = color (i mod w) (i div w) in [c, c, c, 255]) [0..<w * h])"

definition decodeXtcPageToCanvas :: "nat list \<Rightarrow> error + ImageData" where
  "decodeXtcPageToCanvas pageBuffer =
     (let magic = take 3 pageBuffer; twoBit = (magic = [88, 84, 72])
      in if magic \<noteq> [88, 84, 71] \<and> magic \<noteq> [88, 84, 72] then Inl BadMagicError
         else
           (case getUint16 pageBuffer 4 of None \<Rightarrow> Inl RangeError | Some w \<Rightarrow>
           (case getUint16 pageBuffer 6 of None \<Rightarrow> Inl RangeError | Some h \<Rightarrow>
              if w = 0 \<or> h = 0 then Inl IndexSizeError
              else if twoBit then
                (let colBytes = (h + 7) div 8; planeSize = colBytes * w
                 in if 22 + planeSize + planeSize > length pageBuffer then Inl RangeError
                    else
                      (let p0 = take planeSize (drop 22 pageBuffer);
                           p1 = take planeSize (drop (22 + planeSize) pageBuffer)
                       in Inr \<lparr>imgWidth = w, imgHeight = h,
                               imgData = paintPixels w h (xthColor p0 p1 w h)\<rparr>))
              else
                (case getUint32 pageBuffer 10 of None \<Rightarrow> Inl RangeError
                 | Some pixelDataSize \<Rightarrow>
                     if 22 + pixelDataSize > length pageBuffer then Inl RangeError
                     else
                       (let pixelData = take pixelDataSize (drop 22 pageBuffer)
                        in Inr \<lparr>imgWidth = w, imgHeight = h,
                                imgData = paintPixels w h (xtgColor pixelData w)\<rparr>)))))"

subsection \<open>Sample images\<close>

text \<open>A 2 by 2 checkerboard, opaque, and an all-black strip one pixel high.\<close>

definition exampleImage :: ImageData where
  "exampleImage = \<lparr>imgWidth = 2, imgHeight = 2,
                    imgData = [255, 255, 255, 255,  0, 0, 0, 255,
                               0, 0, 0, 255,  255, 255, 255, 255]\<rparr>"

definition wideImage :: ImageData where
  "wideImage = \<lparr>imgWidth = 65536, imgHeight = 1, imgData = replicate 262144 0\<rparr>"

section \<open>Properties of the page mapping\<close>

lemma currentXtcPage_addOriginalPages:
  "currentXtcPage (addOriginalPages ctx calls) = currentXtcPage ctx + sum_list (map snd calls)"
  by (induction calls rule: rev_induct) (auto simp: addOriginalPages_def addOriginalPage_def)

lemma mappings_addOriginalPages:
  "mappings (addOriginalPages ctx calls) =
   mappings ctx @ map (\<lambda>i. \<lparr>originalPage = fst (calls ! i),
        xtcStartPage = currentXtcPage ctx + sum_list (map snd (take i calls)),
        xtcPageCount = snd (calls ! i)\<rparr>) [0..<length calls]"
proof (induction calls rule: rev_induct)
  case Nil
  then show ?case by (simp add: addOriginalPages_def)
next
  case (snoc c calls)
  obtain p n where c: "c = (p, n)" by (cases c)
  have step: "addOriginalPages ctx (calls @ [c]) = addOriginalPage (addOriginalPages ctx calls) p n"
    by (simp add: addOriginalPages_def c)
  show ?case using snoc currentXtcPage_addOriginalPages [of ctx calls]
    by (auto simp: addOriginalPages_def addOriginalPage_def c nth_append)
qed

text \<open>
  Claim C10. After any sequence of \<open>addOriginalPage\<close> calls on a fresh context, the
  first recorded mapping starts at page 1, every later mapping starts where the previous
  one ended (previous start plus previous count), \<open>getTotalXtcPages\<close> is the sum of
  all recorded counts, and the mappings record exactly the calls made, in order.
\<close>

theorem page_mapping_contiguous:
  fixes calls :: "(int \<times> int) list"
  defines "ctx \<equiv> addOriginalPages newPageMappingContext calls"
  shows "(mappings ctx \<noteq> [] \<longrightarrow> xtcStartPage (mappings ctx ! 0) = 1)
       \<and> (\<forall>i. Suc i < length (mappings ctx) \<longrightarrow>
             xtcStartPage (mappings ctx ! Suc i)
               = xtcStartPage (mappings ctx ! i) + xtcPageCount (mappings ctx ! i))
       \<and> getTotalXtcPages ctx = sum_list (map xtcPageCount (mappings ctx))
       \<and> map (\<lambda>m. (originalPage m, xtcPageCount m)) (mappings ctx) = calls"
proof -
  have ms: "mappings ctx = map (\<lambda>i. \<lparr>originalPage = fst (calls ! i),
        xtcStartPage = 1 + sum_list (map snd (take i calls)),
        xtcPageCount = snd (calls ! i)\<rparr>) [0..<length calls]"
    unfolding ctx_def by (simp add: mappings_addOriginalPages newPageMappingContext_def)
  have len: "length (mappings ctx) = length calls" by (simp add: ms)
  have first: "mappings ctx \<noteq> [] \<longrightarrow> xtcStartPage (mappings ctx ! 0) = 1"
    using len by (auto simp: ms)
  have step: "\<forall>i. Suc i < length (mappings ctx) \<longrightarrow>
             xtcStartPage (mappings ctx ! Suc i)
               = xtcStartPage (mappings ctx ! i) + xtcPageCount (mappings ctx ! i)"
  proof (intro allI impI)
    fix i assume "Suc i < length (mappings ctx)"
    then have i: "Suc i < length calls" using len by simp
    then have "take (Suc i) calls = take i calls @ [calls ! i]"
      by (simp add: take_Suc_conv_app_nth)
    then show "xtcStartPage (mappings ctx ! Suc i)
               = xtcStartPage (mappings ctx ! i) + xtcPageCount (mappings ctx ! i)"
      using i by (simp add: ms)
  qed
  have cnt: "map xtcPageCount (mappings ctx) = map snd calls"
    by (rule nth_equalityI) (simp_all add: ms)
  have total: "getTotalXtcPages ctx = sum_list (map xtcPageCount (mappings ctx))"
    unfolding cnt unfolding ctx_def getTotalXtcPages_def
    by (simp add: currentXtcPage_addOriginalPages newPageMappingContext_def)
  have calls: "map (\<lambda>m. (originalPage m, xtcPageCount m)) (mappings ctx) = calls"
    by (rule nth_equalityI) (simp_all add: ms)
  from first step total calls show ?thesis by blast
qed

theorem page_mapping_contiguous_witness:
  "mappings (addOriginalPages newPageMappingContext [(1, 2), (2, 1), (3, 3)]) \<noteq> []
   \<and> Suc 1 < length (mappings (addOriginalPages newPageMappingContext [(1, 2), (2, 1), (3, 3)]))
   \<and> map xtcStartPage (mappings (addOriginalPages newPageMappingContext [(1, 2), (2, 1), (3, 3)])) = [1, 3, 4]
   \<and> getTotalXtcPages (addOriginalPages newPageMappingContext [(1, 2), (2, 1), (3, 3)]) = 6"
  using page_mapping_contiguous [of "[(1, 2), (2, 1), (3, 3)]"]
  by (simp add: addOriginalPages_def addOriginalPage_def newPageMappingContext_def getTotalXtcPages_def)

section \<open>Properties of the crop rectangle and of the per-frame fan-out\<close>

text \<open>
  Claim C9, as the code has it. For a 3x3 source with both margins at 20 percent the crop
  offset is \<open>floor (3 * 20 / 100) = 0\<close>, so the rectangle is the whole 3x3 image;
  and for every source size and every options value the returned width and height are
  at least 1.
\<close>

theorem crop_never_zero:
  "getAxisCropRect 3 3 (defaultOptions\<lparr>horizontalMargin := Num 20, verticalMargin := Num 20\<rparr>)
     = \<lparr>cropX = 0, cropY = 0, cropWidth = 3, cropHeight = 3\<rparr>
   \<and> (\<forall>sourceWidth sourceHeight options.
         cropWidth (getAxisCropRect sourceWidth sourceHeight options) \<ge> 1
       \<and> cropHeight (getAxisCropRect sourceWidth sourceHeight options) \<ge> 1)"
  by (simp add: getAxisCropRect_def defaultOptions_def Let_def)

text \<open>The 3x3 crop at 20 percent margins is not 1x1.\<close>

theorem crop_3x3_counterexample:
  "\<not> (cropWidth (getAxisCropRect 3 3
          (defaultOptions\<lparr>horizontalMargin := Num 20, verticalMargin := Num 20\<rparr>)) = 1
      \<and> cropHeight (getAxisCropRect 3 3
          (defaultOptions\<lparr>horizontalMargin := Num 20, verticalMargin := Num 20\<rparr>)) = 1)"
  by (simp add: getAxisCropRect_def defaultOptions_def Let_def)

subsection \<open>Emitted pages against the predicted count\<close>

lemma seg3: "segmentShift 480 1400 3 = 460"
  by (simp add: segmentShift_def)
lemma seg4: "segmentShift 480 1400 4 = 306"
  by (simp add: segmentShift_def)

lemma grow_ex: "growSegments 480 1400 3 460 = (4, 306)"
  by (simp add: growSegments.simps [of 480 1400 3] growSegments.simps [of 480 1400 4] shiftRatioTooLarge_def seg4)

lemma segs_ex: "calculateOverlapSegments 800 1400 480 800 =
   [\<lparr>segX = 0, segY = 0, segW = 800, segH = 480\<rparr>,
    \<lparr>segX = 0, segY = 306, segW = 800, segH = 480\<rparr>,
    \<lparr>segX = 0, segY = 612, segW = 800, segH = 480\<rparr>,
    \<lparr>segX = 0, segY = 918, segW = 800, segH = 482\<rparr>]"
proof -
  have upt4: "[0..<4] = [0, 1, 2, 3]" by (simp add: eval_nat_numeral)
  show ?thesis by (simp add: calculateOverlapSegments_def seg3 grow_ex upt4)
qed

text \<open>
  Claim C1 at a frame of 800x1400 with the default comic options (landscape, overlap
  split, overviews on, device X4): the segment height is 480, three segments would shift
  by 460 which is more than 95 percent of 480, so a fourth segment is added. The frame
  yields five pages (one overview and four segments), while the predicted count is four.
\<close>

theorem overlap_page_count_mismatch:
  "processCanvasAsImage 800 1400 defaultOptions =
     Some [OverviewPage, SegmentPage 0 0 800 480, SegmentPage 0 306 800 480,
           SegmentPage 0 612 800 480, SegmentPage 0 918 800 482]
   \<and> calculateOutputPageCount
        (cropWidth (getAxisCropRect 800 1400 defaultOptions))
        (cropHeight (getAxisCropRect 800 1400 defaultOptions)) defaultOptions = 4"
proof -
  have crop: "getAxisCropRect 800 1400 defaultOptions
     = \<lparr>cropX = 0, cropY = 0, cropWidth = 800, cropHeight = 1400\<rparr>"
    by (simp add: getAxisCropRect_def defaultOptions_def Let_def)
  have opts: "sidewaysOverviews defaultOptions = False" "includeOverviews defaultOptions = True"
    "manhwa defaultOptions = False" "splitMode defaultOptions = ''overlap''"
    "orientation defaultOptions = Landscape" "sourceType defaultOptions = Cbz"
    "device defaultOptions = X4"
    by (simp_all add: defaultOptions_def)
  show ?thesis
    by (simp add: processCanvasAsImage_def crop opts getTargetDimensions_def segs_ex
        calculateOutputPageCount_def)
qed

lemma growSegments_fst_ge: "n \<le> fst (growSegments s h n sh)"
proof (induction s h n sh rule: growSegments.induct)
  case (1 s h n sh)
  show ?case
  proof (cases "shiftRatioTooLarge sh s \<and> n < 10")
    case True
    then show ?thesis using 1 by (subst growSegments.simps) auto
  next
    case False
    then show ?thesis by (subst growSegments.simps) auto
  qed
qed

lemma length_calculateOverlapSegments:
  "length (calculateOverlapSegments w h tw th) =
     fst (growSegments \<lfloor>of_int tw / ((of_int th :: real) / of_int w)\<rfloor> h 3
            (segmentShift \<lfloor>of_int tw / ((of_int th :: real) / of_int w)\<rfloor> h 3))"
  by (simp add: calculateOverlapSegments_def Let_def split: prod.splits)

lemma calculateOverlapSegments_at_least_3:
  "3 \<le> length (calculateOverlapSegments w h tw th)"
  unfolding length_calculateOverlapSegments by (rule growSegments_fst_ge)

text \<open>
  Outside the overlap split, the number of pushed pages is the predicted count; in the
  overlap split it is the predicted count with the constant 3 replaced by the number of
  segments.
\<close>

lemma emitted_count_characterisation:
  fixes sourceWidth sourceHeight :: int and options :: ConversionOptions
  assumes "\<not> manhwa options"
  defines "crop \<equiv> getAxisCropRect sourceWidth sourceHeight options"
  defines "overlapSplit \<equiv> orientation options = Landscape \<and> cropWidth crop < cropHeight crop
                          \<and> splitMode options = ''overlap''"
  shows "\<exists>pages. processCanvasAsImage sourceWidth sourceHeight options = Some pages
          \<and> (if overlapSplit
              then int (length pages) =
                     int (calculateOutputPageCount (cropWidth crop) (cropHeight crop) options) - 3
                     + int (length (calculateOverlapSegments (cropWidth crop) (cropHeight crop)
                          (fst (getTargetDimensions options)) (snd (getTargetDimensions options))))
              else length pages =
                     calculateOutputPageCount (cropWidth crop) (cropHeight crop) options)"
proof -
  obtain dw dh where d: "getTargetDimensions options = (dw, dh)" by (cases "getTargetDimensions options")
  have o: "orientation options \<noteq> Portrait \<longleftrightarrow> orientation options = Landscape"
    by (cases "orientation options") auto
  show ?thesis
    using assms(1) o
    by (auto simp: processCanvasAsImage_def calculateOutputPageCount_def Let_def d
        crop_def overlapSplit_def)
qed

section \<open>Properties of TOC remapping in the archive converter\<close>

subsection \<open>The recorded mapping of a run of files\<close>

lemma find_map_upt_unique:
  assumes "k < n" and "\<And>i. i < n \<Longrightarrow> P (f i) \<longleftrightarrow> i = k"
  shows "find P (map f [0..<n]) = Some (f k)"
  unfolding find_Some_iff using assms by (intro exI[of _ k]) auto

lemma sum_list_int: "sum_list (map int xs) = int (sum_list xs)"
  by (induction xs) simp_all

lemma file_calls_nth:
  "i < length counts \<Longrightarrow>
     map (\<lambda>(i, c). (int i + 1, int c)) (enumerate 0 counts) ! i = (int i + 1, int (counts ! i))"
  by (simp add: nth_enumerate_eq)

lemma file_calls_counts:
  "map snd (map (\<lambda>(i, c). (int i + 1, int c)) (enumerate k counts)) = map int counts"
  by (induction counts arbitrary: k) simp_all

lemma file_calls_take:
  "map snd (take i (map (\<lambda>(i, c). (int i + 1, int c)) (enumerate k counts)))
     = map int (take i counts)"
  unfolding take_map [symmetric] file_calls_counts ..

lemma mappings_file_calls:
  "mappings (addOriginalPages newPageMappingContext
      (map (\<lambda>(i, c). (int i + 1, int c)) (enumerate 0 counts))) =
     map (\<lambda>i. \<lparr>originalPage = int i + 1,
                xtcStartPage = 1 + int (sum_list (take i counts)),
                xtcPageCount = int (counts ! i)\<rparr>) [0..<length counts]"
  by (simp add: mappings_addOriginalPages newPageMappingContext_def file_calls_take
      sum_list_int nth_enumerate_eq)

lemma getTotalXtcPages_file_calls:
  "getTotalXtcPages (addOriginalPages newPageMappingContext
      (map (\<lambda>(i, c). (int i + 1, int c)) (enumerate 0 counts))) = int (sum_list counts)"
  unfolding getTotalXtcPages_def currentXtcPage_addOriginalPages file_calls_counts
  by (simp add: newPageMappingContext_def sum_list_int)

lemma getXtcPage_file_calls:
  assumes "1 \<le> p" and "p \<le> int (length counts)"
  shows "getXtcPage (addOriginalPages newPageMappingContext
           (map (\<lambda>(i, c). (int i + 1, int c)) (enumerate 0 counts))) p
         = 1 + int (sum_list (take (nat (p - 1)) counts))"
proof -
  let ?f = "\<lambda>i. \<lparr>originalPage = int i + 1,
                xtcStartPage = 1 + int (sum_list (take i counts)),
                xtcPageCount = int (counts ! i)\<rparr>"
  have "find (\<lambda>m. originalPage m = p) (map ?f [0..<length counts]) = Some (?f (nat (p - 1)))"
    using assms by (intro find_map_upt_unique) auto
  then show ?thesis by (simp add: getXtcPage_def mappings_file_calls)
qed

subsection \<open>The buffered path\<close>

lemma processImageAsBinary_returns:
  assumes "\<not> manhwa options"
  shows "\<exists>pages. processImageAsBinary img options = Some pages"
proof (cases img)
  case (Bitmap width height)
  then show ?thesis
    using emitted_count_characterisation [OF assms, of width height] by auto
next
  case Undecodable
  then show ?thesis by simp
qed

lemma processBatches_result:
  assumes "\<not> manhwa options"
  shows "processBatches options imgs k s =
     Some (s\<lparr>pageBlobs := pageBlobs s
                + sum_list (map (\<lambda>img. length (the (processImageAsBinary img options))) imgs),
             pageInfos := pageInfos s
                + sum_list (map (\<lambda>img. length (the (processImageAsBinary img options))) imgs),
             mappingCtx := addOriginalPages (mappingCtx s)
                (map (\<lambda>(i, c). (int i + 1, int c))
                   (enumerate k (map (\<lambda>img. length (the (processImageAsBinary img options)))
                      imgs)))\<rparr>)"
proof (induction imgs arbitrary: k s)
  case Nil
  show ?case by (simp add: addOriginalPages_def)
next
  case (Cons img rest)
  obtain pages where p: "processImageAsBinary img options = Some pages"
    using processImageAsBinary_returns [OF assms] by blast
  show ?case
    by (simp add: p Cons.IH addOriginalPages_def)
qed

text \<open>
  The buffered path outside manhwa mode records for every file the number of pages pushed
  for it. There the conversion returns, the page count and the number of pages handed on
  are the sum of the per-file page counts, and the adjusted TOC keeps the titles, starts
  each entry at the first page pushed for its file, ends each non-final entry one page
  before the next entry's start and ends the final entry at the last page pushed.
\<close>

lemma buffered_toc_remapping:
  fixes tocEntries :: "TocEntry list"
  assumes nm: "\<not> manhwa options" and ne: "imageFiles \<noteq> []"
    and range: "\<forall>e \<in> set tocEntries. 1 \<le> startPage e \<and> startPage e \<le> int (length imageFiles)"
  defines "counts \<equiv> map (\<lambda>img. length (the (processImageAsBinary img options))) imageFiles"
  shows "\<exists>c. convertCbzToXtc isSolid False imageFiles options tocEntries = Some (Inr c)
          \<and> resultPageCount c = sum_list counts
          \<and> resultPagesWritten c = sum_list counts
          \<and> length (resultToc c) = length tocEntries
          \<and> (\<forall>i < length tocEntries.
                title (resultToc c ! i) = title (tocEntries ! i)
              \<and> startPage (resultToc c ! i)
                  = 1 + int (sum_list (take (nat (startPage (tocEntries ! i) - 1)) counts))
              \<and> endPage (resultToc c ! i)
                  = (if Suc i < length tocEntries then startPage (resultToc c ! Suc i) - 1
                     else int (resultPagesWritten c)))"
proof -
  define ctx where "ctx = addOriginalPages newPageMappingContext
      (map (\<lambda>(i, c). (int i + 1, int c)) (enumerate 0 counts))"
  define res where "res = remapToc ctx tocEntries"
  define c where "c = \<lparr>resultToc = res, resultPageCount = sum_list counts,
      resultPagesWritten = sum_list counts\<rparr>"
  have run: "convertCbzToXtc isSolid False imageFiles options tocEntries = Some (Inr c)"
    using nm ne
    by (simp add: convertCbzToXtc_def processBatches_result [OF nm] finishConversion_def
        newPageLoop_def c_def res_def ctx_def counts_def)
  have len: "length counts = length imageFiles" by (simp add: counts_def)
  have lres: "length res = length tocEntries" by (simp add: res_def remapToc_def)
  have start: "startPage (res ! i)
        = 1 + int (sum_list (take (nat (startPage (tocEntries ! i) - 1)) counts))"
    and ttl: "title (res ! i) = title (tocEntries ! i)"
    and "end": "endPage (res ! i) = (if Suc i < length tocEntries
            then getXtcPage ctx (startPage (tocEntries ! Suc i)) - 1 else getTotalXtcPages ctx)"
    if "i < length tocEntries" for i
    using that range getXtcPage_file_calls [of "startPage (tocEntries ! i)" counts] len
    by (auto simp: res_def remapToc_def remapTocEntry_def Let_def ctx_def)
  have entries: "title (res ! i) = title (tocEntries ! i)
              \<and> startPage (res ! i)
                  = 1 + int (sum_list (take (nat (startPage (tocEntries ! i) - 1)) counts))
              \<and> endPage (res ! i)
                  = (if Suc i < length tocEntries then startPage (res ! Suc i) - 1
                     else int (sum_list counts))"
    if i: "i < length tocEntries" for i
  proof (cases "Suc i < length tocEntries")
    case True
    have "startPage (res ! Suc i) = getXtcPage ctx (startPage (tocEntries ! Suc i))"
      using True by (auto simp: res_def remapToc_def remapTocEntry_def Let_def)
    then show ?thesis using "end" [OF i] start [OF i] ttl [OF i] True by simp
  next
    case False
    then show ?thesis using "end" [OF i] start [OF i] ttl [OF i]
      by (simp add: ctx_def getTotalXtcPages_file_calls)
  qed
  show ?thesis
    using run lres entries by (intro exI [of _ c]) (simp add: c_def)
qed

text \<open>The scenario of four files with 2, 1, 3 and 1 pages.\<close>

lemma recorded_counts_example:
  "remapToc (addOriginalPages newPageMappingContext [(1, 2), (2, 1), (3, 3), (4, 1)])
     [\<lparr>title = ''A'', startPage = 1, endPage = 2\<rparr>,
      \<lparr>title = ''B'', startPage = 3, endPage = 4\<rparr>]
   = [\<lparr>title = ''A'', startPage = 1, endPage = 3\<rparr>,
      \<lparr>title = ''B'', startPage = 4, endPage = 7\<rparr>]
   \<and> getTotalXtcPages (addOriginalPages newPageMappingContext [(1, 2), (2, 1), (3, 3), (4, 1)]) = 7"
  by (simp add: remapToc_def remapTocEntry_def Let_def getXtcPage_def getTotalXtcPages_def
      addOriginalPages_def addOriginalPage_def newPageMappingContext_def upt_rec [of 0]
      upt_rec [of 1] eval_nat_numeral)

subsection \<open>The streamed path and manhwa mode\<close>

lemma default_option_fields:
  "sidewaysOverviews defaultOptions = False" "includeOverviews defaultOptions = True"
  "manhwa defaultOptions = False" "splitMode defaultOptions = ''overlap''"
  "orientation defaultOptions = Landscape" "sourceType defaultOptions = Cbz"
  "device defaultOptions = X4" "manhwaOverlap defaultOptions = 50"
  by (simp_all add: defaultOptions_def)

lemma tall_file_crop: "getAxisCropRect 800 1400 defaultOptions
     = \<lparr>cropX = 0, cropY = 0, cropWidth = 800, cropHeight = 1400\<rparr>"
  by (simp add: getAxisCropRect_def defaultOptions_def Let_def)

lemma square_file_crop: "getAxisCropRect 800 800 defaultOptions
     = \<lparr>cropX = 0, cropY = 0, cropWidth = 800, cropHeight = 800\<rparr>"
  by (simp add: getAxisCropRect_def defaultOptions_def Let_def)

lemma tall_file_pages:
  "processCanvasAsImage 800 1400 defaultOptions =
     Some [OverviewPage, SegmentPage 0 0 800 480, SegmentPage 0 306 800 480,
           SegmentPage 0 612 800 480, SegmentPage 0 918 800 482]"
  by (simp add: processCanvasAsImage_def tall_file_crop default_option_fields
      getTargetDimensions_def segs_ex)

lemma square_file_pages:
  "processCanvasAsImage 800 800 defaultOptions = Some [OverviewPage, RotatedPage]"
  by (simp add: processCanvasAsImage_def square_file_crop default_option_fields
      getTargetDimensions_def)

lemma streamed_analysis:
  "analysePages defaultOptions [Bitmap 800 1400, Bitmap 800 800] 0 newPageLoop =
     Inr \<lparr>mappingCtx = addOriginalPages newPageMappingContext [(1, 4), (2, 2)],
          pageInfos = 6, pageBlobs = 0\<rparr>"
  by (simp add: tall_file_crop square_file_crop calculateOutputPageCount_def
      default_option_fields newPageLoop_def addOriginalPages_def)

lemma streamed_toc:
  "remapToc (addOriginalPages newPageMappingContext [(1, 4), (2, 2)])
     [\<lparr>title = ''Page 1'', startPage = 1, endPage = 1\<rparr>,
      \<lparr>title = ''Page 2'', startPage = 2, endPage = 2\<rparr>]
   = [\<lparr>title = ''Page 1'', startPage = 1, endPage = 4\<rparr>,
      \<lparr>title = ''Page 2'', startPage = 5, endPage = 6\<rparr>]"
  by (simp add: remapToc_def remapTocEntry_def Let_def getXtcPage_def getTotalXtcPages_def
      addOriginalPages_def addOriginalPage_def newPageMappingContext_def upt_rec [of 0]
      upt_rec [of 1] eval_nat_numeral)

text \<open>
  Claim C5 at an archive of two files, 800x1400 and 800x800, with the default comic
  options and the streamed download. Pass 1 records the predicted counts 4 and 2, so the
  TOC [Page 1 1-1, Page 2 2-2] becomes [Page 1 1-4, Page 2 5-6] and the page count is 6.
  Pass 2 writes the pages the files really yield, 5 and 2: seven pages are written, the
  second file's first page is the sixth, and the final entry ends one page short of the
  pages written.
\<close>

theorem streamed_toc_misses_emitted_pages:
  "convertCbzToXtc isSolid True [Bitmap 800 1400, Bitmap 800 800] defaultOptions
     [\<lparr>title = ''Page 1'', startPage = 1, endPage = 1\<rparr>,
      \<lparr>title = ''Page 2'', startPage = 2, endPage = 2\<rparr>]
   = Some (Inr \<lparr>resultToc = [\<lparr>title = ''Page 1'', startPage = 1, endPage = 4\<rparr>,
                              \<lparr>title = ''Page 2'', startPage = 5, endPage = 6\<rparr>],
                 resultPageCount = 6, resultPagesWritten = 7\<rparr>)
   \<and> map_option length (processImageAsBinary (Bitmap 800 1400) defaultOptions) = Some 5
   \<and> map_option length (processImageAsBinary (Bitmap 800 800) defaultOptions) = Some 2"
proof -
  have w: "writePages defaultOptions [Bitmap 800 1400, Bitmap 800 800]
      \<lparr>mappingCtx = addOriginalPages newPageMappingContext [(1, 4), (2, 2)],
       pageInfos = 6, pageBlobs = 0\<rparr>
    = Some \<lparr>mappingCtx = addOriginalPages newPageMappingContext [(1, 4), (2, 2)],
       pageInfos = 6, pageBlobs = 7\<rparr>"
    by (simp add: tall_file_pages square_file_pages)
  have "convertCbzToXtc isSolid True [Bitmap 800 1400, Bitmap 800 800] defaultOptions
     [\<lparr>title = ''Page 1'', startPage = 1, endPage = 1\<rparr>,
      \<lparr>title = ''Page 2'', startPage = 2, endPage = 2\<rparr>]
   = Some (Inr \<lparr>resultToc = [\<lparr>title = ''Page 1'', startPage = 1, endPage = 4\<rparr>,
                              \<lparr>title = ''Page 2'', startPage = 5, endPage = 6\<rparr>],
                 resultPageCount = 6, resultPagesWritten = 7\<rparr>)"
    by (simp add: convertCbzToXtc_def default_option_fields streamed_analysis w
        finishConversion_def streamed_toc del: analysePages.simps writePages.simps)
  then show ?thesis by (simp add: tall_file_pages square_file_pages)
qed

lemma manhwa_append:
  "stitcherAppend isSolid (defaultOptions\<lparr>manhwa := True\<rparr>) newManhwaStitcher 480 1000
   = Some (\<lparr>stitcherBuffer = Some (if isSolid 0 then 200 else 600), stitcherPageCount = 1\<rparr>, 1)"
  by (simp add: stitcherAppend_def newManhwaStitcher_def defaultOptions_def
      sliceReadyPages.simps [of _ _ _ "\<lparr>stitcherBuffer = Some 1000, stitcherPageCount = 0\<rparr>"]
      sliceReadyPages.simps [of _ _ _ "\<lparr>stitcherBuffer = Some 200, stitcherPageCount = Suc 0\<rparr>"]
      sliceReadyPages.simps [of _ _ _ "\<lparr>stitcherBuffer = Some 600, stitcherPageCount = Suc 0\<rparr>"])

text \<open>
  Manhwa mode, one file of 480x1000 on the X4: \<open>append\<close> cuts one page and leaves a
  buffer of positive height, which \<open>finish\<close> turns into a second page. Two pages are
  pushed, one is recorded, and the only TOC entry ends at page 1.
\<close>

lemma manhwa_finish_page_unrecorded:
  "convertCbzToXtc isSolid False [Bitmap 480 1000] (defaultOptions\<lparr>manhwa := True\<rparr>)
     [\<lparr>title = ''Page 1'', startPage = 1, endPage = 1\<rparr>]
   = Some (Inr \<lparr>resultToc = [\<lparr>title = ''Page 1'', startPage = 1, endPage = 1\<rparr>],
                 resultPageCount = 2, resultPagesWritten = 2\<rparr>)"
  unfolding convertCbzToXtc_def Let_def
  by (simp add: manhwa_append stitcherFinish_def finishConversion_def newPageLoop_def
      remapToc_def remapTocEntry_def Let_def getXtcPage_def getTotalXtcPages_def
      addOriginalPage_def newPageMappingContext_def)

section \<open>Properties of the dithering module\<close>

subsection \<open>Threshold quantizer\<close>

lemma thresholdLoop_length: "length (thresholdLoop q xs) = length xs"
  by (induction q xs rule: thresholdLoop.induct) auto

lemma thresholdLoop_nth:
  "4 * k < length xs \<Longrightarrow> thresholdLoop q xs ! (4 * k) = q (xs ! (4 * k))"
proof (induction q xs arbitrary: k rule: thresholdLoop.induct)
  case (1 q r g b a rest)
  show ?case
  proof (cases k)
    case 0
    then show ?thesis by simp
  next
    case (Suc j)
    then have "4 * j < length rest" using 1(2) by simp
    then have "thresholdLoop q rest ! (4 * j) = q (rest ! (4 * j))" by (rule 1(1))
    then show ?thesis by (simp add: Suc)
  qed
next
  case (2 q r g b)
  then show ?case by (cases k) auto
next
  case (3 q r g)
  then show ?case by (cases k) auto
qed auto

text \<open>The later revision of the module quantizes to the four levels 0, 85, 170, 255.\<close>

lemma applyThreshold_rev_levels:
  assumes "4 * k < length data"
  shows "applyThreshold_rev data True ! (4 * k) =
           (let v = data ! (4 * k) in
            if v < 42 then 0 else if v < 127 then 85 else if v < 212 then 170 else 255)"
  using assms by (simp add: applyThreshold_rev_def thresholdLoop_nth Let_def)

text \<open>
  Claim C2 at a two-pixel image with gray values 100 and 150, 2-bit mode: the threshold
  pass of \<open>dithering.ts\<close> writes 1 and 2 where the four-level quantizer has 85 and 170.
\<close>

theorem threshold_2bit_levels_wrong:
  "applyThreshold [100, 100, 100, 255, 150, 150, 150, 255] True = [1, 1, 1, 255, 2, 2, 2, 255]"
  by (simp add: applyThreshold_def)

subsection \<open>Floyd-Steinberg error diffusion\<close>

text \<open>
  Claim C8 at the 2x2 one-bit image with gray values 5, 35 / 120, 0. Visiting the first
  pixel (error 5) adds \<open>35 >> 4 = 2\<close>, \<open>25 >> 4 = 1\<close> and \<open>5 >> 4 = 0\<close> to the
  neighbours, not 35/16, 25/16 and 5/16; after the whole pass the lower-left pixel has
  accumulated 127 and comes out black.
\<close>

theorem floyd_steinberg_truncates_error:
  "floydSteinbergVisit 2 2 False [5, 35, 120, 0] (0, 0) = [0, 37, 121, 0]
   \<and> applyFloydSteinberg [5, 5, 5, 255, 35, 35, 35, 255, 120, 120, 120, 255, 0, 0, 0, 255] 2 2 False
       = [0, 0, 0, 255, 0, 0, 0, 255, 0, 0, 0, 255, 0, 0, 0, 255]"
  by code_simp

text \<open>
  The later revision diffuses the exact fractions; on the same image the lower-left
  pixel accumulates more than 128 and comes out white.
\<close>

lemma floyd_steinberg_rev_exact:
  "floydSteinbergVisit_rev 2 2 False [5, 35, 120, 0] (0, 0)
     = [0, 35 + 35 / 16, 120 + 25 / 16, 5 / 16]
   \<and> applyFloydSteinberg_rev
         [5, 5, 5, 255, 35, 35, 35, 255, 120, 120, 120, 255, 0, 0, 0, 255] 2 2 False
       = [0, 0, 0, 255, 0, 0, 0, 255, 255, 255, 255, 255, 0, 0, 0, 255]"
  by code_simp

section \<open>Properties of the fused filter pass\<close>

lemma gammaLut_2_128: "gammaLut 2 128 = 64"
proof -
  have "(128 / 255 :: real) powr 2 = (128 / 255) ^ 2" by (rule powr_numeral) simp
  then show ?thesis by (simp add: gammaLut_def mathRound_def power2_eq_square)
qed

lemma filterLoop_length: "length (filterLoop f xs) = length xs"
  by (induction f xs rule: filterLoop.induct) auto



lemma filters_2bit_gamma2_example: "processAndEncodeFilters (defaultOptions\<lparr>gamma := 2, is2bit := True\<rparr>) [128, 128, 128, 255]
        = [64, 64, 64, 255]"
  by (simp add: processAndEncodeFilters_def applyUnifiedFilters_def defaultOptions_def
      contrastPoints_def filteredGray_def filteredLuminosity_def luminosity_def mathRound_def gammaLut_2_128 Let_def)




section \<open>Properties of the container writer\<close>

lemma tocTimestamp_given: "t \<noteq> 0 \<Longrightarrow> tocTimestamp now (Some t) = t"
  by (simp add: tocTimestamp_def)

lemma setBytes_length: "setBytes buf off bs = Some buf' \<Longrightarrow> length buf' = length buf"
  by (auto simp: setBytes_def split: if_splits)

lemma setBytes_take: "setBytes buf off bs = Some buf' \<Longrightarrow> k \<le> off \<Longrightarrow> take k buf' = take k buf"
  by (auto simp: setBytes_def min_def split: if_splits)

lemma setUint16_take: "setUint16 buf off v = Some buf' \<Longrightarrow> k \<le> off \<Longrightarrow> take k buf' = take k buf"
  unfolding setUint16_def by (rule setBytes_take)

lemma setUint32_take: "setUint32 buf off v = Some buf' \<Longrightarrow> k \<le> off \<Longrightarrow> take k buf' = take k buf"
  unfolding setUint32_def by (rule setBytes_take)

lemma setBigUint64_take:
  "setBigUint64 buf off v = Some buf' \<Longrightarrow> k \<le> off \<Longrightarrow> take k buf' = take k buf"
  by (auto simp: setBigUint64_def split: bind_splits dest!: setUint32_take [where k = k])

lemma writeTocEntries_take:
  "writeTocEntries buf off es = Some buf' \<Longrightarrow> k \<le> off \<Longrightarrow> take k buf' = take k buf"
proof (induction es arbitrary: buf off)
  case Nil
  then show ?case by simp
next
  case (Cons e es)
  from Cons.prems(1) obtain b1 b2 b3 where
    1: "setBytes buf off (take (min (length (title e)) (TOC_TITLE_SIZE - 1)) (encodeText (title e))) = Some b1"
    and 2: "setUint16 b1 (off + TOC_TITLE_SIZE) (nat (startPage e mod 65536)) = Some b2"
    and 3: "setUint16 b2 (off + TOC_TITLE_SIZE + 2) (nat (endPage e mod 65536)) = Some b3"
    and 4: "writeTocEntries b3 (off + TOC_ENTRY_SIZE) es = Some buf'"
    by (auto split: bind_splits)
  have "take k buf' = take k b3" using Cons.IH [OF 4] Cons.prems(2) by simp
  also have "\<dots> = take k b2" using setUint16_take [OF 3] Cons.prems(2) by simp
  also have "\<dots> = take k b1" using setUint16_take [OF 2] Cons.prems(2) by simp
  also have "\<dots> = take k buf" using setBytes_take [OF 1] Cons.prems(2) by simp
  finally show ?case .
qed

lemma writeIndexEntries_take:
  "writeIndexEntries buf off rel blobs = Some buf' \<Longrightarrow> k \<le> off \<Longrightarrow> take k buf' = take k buf"
proof (induction blobs arbitrary: buf off rel)
  case Nil
  then show ?case by simp
next
  case (Cons blob blobs)
  from Cons.prems(1) obtain w h b1 b2 b3 b4 where
    1: "setBigUint64 buf off rel = Some b1"
    and 2: "setUint32 b1 (off + 8) (length blob) = Some b2"
    and 3: "setUint16 b2 (off + 12) w = Some b3"
    and 4: "setUint16 b3 (off + 14) h = Some b4"
    and 5: "writeIndexEntries b4 (off + INDEX_ENTRY_SIZE) (rel + length blob) blobs = Some buf'"
    by (auto split: bind_splits)
  have "take k buf' = take k b4" using Cons.IH [OF 5] Cons.prems(2) by simp
  also have "\<dots> = take k b3" using setUint16_take [OF 4] Cons.prems(2) by simp
  also have "\<dots> = take k b2" using setUint16_take [OF 3] Cons.prems(2) by simp
  also have "\<dots> = take k b1" using setUint32_take [OF 2] Cons.prems(2) by simp
  also have "\<dots> = take k buf" using setBigUint64_take [OF 1] Cons.prems(2) by simp
  finally show ?case .
qed

lemma writePageData_take:
  "writePageData buf off blobs = Some buf' \<Longrightarrow> k \<le> off \<Longrightarrow> take k buf' = take k buf"
proof (induction blobs arbitrary: buf off)
  case Nil
  then show ?case by simp
next
  case (Cons blob blobs)
  from Cons.prems(1) obtain b1 where
    1: "setBytes buf off blob = Some b1"
    and 2: "writePageData b1 (off + length blob) blobs = Some buf'"
    by (auto split: bind_splits)
  have "take k buf' = take k b1" using Cons.IH [OF 2] Cons.prems(2) by simp
  also have "\<dots> = take k buf" using setBytes_take [OF 1] Cons.prems(2) by simp
  finally show ?case .
qed

lemma getUint32_take: "off + 4 \<le> k \<Longrightarrow> getUint32 (take k buf) off = getUint32 buf off"
  by (auto simp: getUint32_def)

lemma u16_recombine: "(v::nat) mod 256 + 256 * (v div 256 mod 256) = v mod 65536"
  using mod_mult2_eq [of v 256 256] by simp

lemma u32_recombine:
  "(v::nat) mod 256 + 256 * (v div 256 mod 256) + 65536 * (v div 65536 mod 256)
          + 16777216 * (v div 16777216 mod 256) = v mod 4294967296"
proof -
  have a: "v mod 65536 = v mod 256 + 256 * (v div 256 mod 256)"
    using mod_mult2_eq [of v 256 256] by simp
  have b: "v div 65536 mod 65536 = v div 65536 mod 256 + 256 * (v div 65536 div 256 mod 256)"
    using mod_mult2_eq [of "v div 65536" 256 256] by simp
  have c: "v div 65536 div 256 = v div 16777216"
    by (simp add: div_mult2_eq [symmetric])
  have d: "v mod 4294967296 = v mod 65536 + 65536 * (v div 65536 mod 65536)"
    using mod_mult2_eq [of v 65536 65536] by simp
  show ?thesis unfolding d a b c by simp
qed

lemma setBytes_nth:
  "setBytes buf off bs = Some buf' \<Longrightarrow> j < length bs \<Longrightarrow> buf' ! (off + j) = bs ! j"
  by (auto simp: setBytes_def nth_append split: if_splits)

lemma setBytes_nth_other:
  "setBytes buf off bs = Some buf' \<Longrightarrow> i < off \<or> off + length bs \<le> i \<Longrightarrow> buf' ! i = buf ! i"
  by (auto simp: setBytes_def nth_append split: if_splits)

lemma getUint32_setUint32:
  assumes a: "setUint32 buf off v = Some buf'"
  shows "getUint32 buf' off = Some (v mod 2 ^ 32)"
proof -
  have a': "setBytes buf off (u32le v) = Some buf'" using a by (simp add: setUint32_def)
  have le: "off + 4 \<le> length buf"
    using a' by (auto simp: setBytes_def u32le_def split: if_splits)
  have n: "buf' ! off = v mod 256" "buf' ! (off + 1) = v div 256 mod 256"
       "buf' ! (off + 2) = v div 65536 mod 256" "buf' ! (off + 3) = v div 16777216 mod 256"
    using setBytes_nth [OF a', of 0] setBytes_nth [OF a', of 1]
          setBytes_nth [OF a', of 2] setBytes_nth [OF a', of 3]
    by (simp_all add: u32le_def)
  have len: "length buf' = length buf" using a' by (rule setBytes_length)
  have "off + 4 \<le> length buf'" using le len by simp
  then have "getUint32 buf' off = Some (buf' ! off + 256 * buf' ! (off + 1)
      + 65536 * buf' ! (off + 2) + 16777216 * buf' ! (off + 3))"
    unfolding getUint32_def by (rule if_P)
  also have "\<dots> = Some (v mod 2 ^ 32)"
    unfolding n using u32_recombine [of v] by simp
  finally show ?thesis .
qed

lemmas container_sizes = HEADER_BASE_SIZE_def HEADER_WITH_METADATA_SIZE_def INDEX_ENTRY_SIZE_def
  TITLE_SIZE_def AUTHOR_SIZE_def PUBLISHER_SIZE_def LANGUAGE_SIZE_def TOC_HEADER_SIZE_def
  TOC_ENTRY_SIZE_def TOC_TITLE_SIZE_def

lemma writeMetadata_timestamp:
  assumes "writeMetadata now buf 56 m = Some buf'"
  shows "getUint32 (take 300 buf') 296 = Some (tocTimestamp now (createTime m) mod 2 ^ 32)"
proof -
  from assms obtain b4 b5 where
    hdr: "writeTocHeader now b4 296 (length (toc m)) (coverPage m) (createTime m) = Some b5"
    and rest: "(if length (toc m) > 0 then writeTocEntries b5 312 (toc m) else Some b5) = Some buf'"
    unfolding writeMetadata_def container_sizes
    by (auto split: bind_splits cong: if_cong)
  from hdr obtain c1 c2 where
    1: "setUint32 b4 296 (tocTimestamp now (createTime m)) = Some c1"
    and 2: "setUint16 c1 300 (case coverPage m of Some c \<Rightarrow> c | None \<Rightarrow> 65535) = Some c2"
    and 3: "setUint16 c2 302 (length (toc m)) = Some b5"
    by (auto simp: writeTocHeader_def split: bind_splits)
  have "take 300 buf' = take 300 b5"
    using rest writeTocEntries_take [of b5 312 "toc m" buf' 300] by (auto split: if_splits)
  also have "\<dots> = take 300 c2" using setUint16_take [OF 3, of 300] by simp
  also have "\<dots> = take 300 c1" using setUint16_take [OF 2, of 300] by simp
  finally have "take 300 buf' = take 300 c1" .
  then show ?thesis using getUint32_setUint32 [OF 1] by (simp add: getUint32_take)
qed

lemma buildXtcFromBuffers_timestamp:
  assumes has: "hasMetadataOf (Some m)"
    and out: "buildXtcFromBuffers now blobs (Some m) twoBit = Some out"
  shows "getUint32 out 296 = Some (tocTimestamp now (createTime m) mod 2 ^ 32)"
proof -
  define indexOffset where "indexOffset = 56 + (256 + length (toc m) * 96)"
  from out has obtain b10 b11 b12 where
    meta: "writeMetadata now b10 56 m = Some b11"
    and idx: "writeIndexEntries b11 indexOffset (indexOffset + length blobs * 16) blobs = Some b12"
    and dat: "writePageData b12 (indexOffset + length blobs * 16) blobs = Some out"
    unfolding buildXtcFromBuffers_def Let_def container_sizes indexOffset_def
    by (auto split: bind_splits cong: if_cong)
  have "take 300 out = take 300 b12"
    using writePageData_take [OF dat, of 300] by (simp add: indexOffset_def)
  also have "\<dots> = take 300 b11"
    using writeIndexEntries_take [OF idx, of 300] by (simp add: indexOffset_def)
  finally have "getUint32 (take 300 out) 296 = getUint32 (take 300 b11) 296" by simp
  then show ?thesis using writeMetadata_timestamp [OF meta] by (simp add: getUint32_take)
qed

lemma writeMetadata_given_createTime:
  assumes "createTime m = Some t" and "t \<noteq> 0"
  shows "writeMetadata now1 buf off m = writeMetadata now2 buf off m"
  using assms by (simp add: writeMetadata_def writeTocHeader_def tocTimestamp_def)

lemma setBytes_ok:
  "off + length bs \<le> length buf \<Longrightarrow> \<exists>b. setBytes buf off bs = Some b \<and> length b = length buf"
  by (simp add: setBytes_def)

lemma setUint16_ok:
  "off + 2 \<le> length buf \<Longrightarrow> \<exists>b. setUint16 buf off v = Some b \<and> length b = length buf"
  unfolding setUint16_def by (rule setBytes_ok) (simp add: u16le_def)

lemma setUint32_ok:
  "off + 4 \<le> length buf \<Longrightarrow> \<exists>b. setUint32 buf off v = Some b \<and> length b = length buf"
  unfolding setUint32_def by (rule setBytes_ok) (simp add: u32le_def)

lemma setBigUint64_ok:
  assumes "off + 8 \<le> length buf"
  shows "\<exists>b. setBigUint64 buf off v = Some b \<and> length b = length buf"
proof -
  obtain b1 where 1: "setUint32 buf off (v mod 2 ^ 32) = Some b1" "length b1 = length buf"
    using setUint32_ok [of off buf] assms by force
  obtain b2 where 2: "setUint32 b1 (off + 4) (v div 2 ^ 32) = Some b2" "length b2 = length b1"
    using setUint32_ok [of "off + 4" b1] assms 1 by force
  show ?thesis using 1 2 by (simp add: setBigUint64_def)
qed

lemma writeText_ok:
  assumes "off + fieldSize \<le> length buf"
  shows "\<exists>b. writeText buf off fieldSize s = Some b \<and> length b = length buf"
proof (cases "s = []")
  case True
  then show ?thesis by (simp add: writeText_def)
next
  case False
  have "off + length (take (min (length s) (fieldSize - 1)) (encodeText s)) \<le> length buf"
    using assms by (simp add: encodeText_def)
  from setBytes_ok [OF this] show ?thesis using False by (simp add: writeText_def)
qed

lemma writeTocHeader_ok:
  assumes "off + 16 \<le> length buf"
  shows "\<exists>b. writeTocHeader now buf off n cover ct = Some b \<and> length b = length buf"
proof -
  obtain b1 where 1: "setUint32 buf off (tocTimestamp now ct) = Some b1" "length b1 = length buf"
    using setUint32_ok [of off buf] assms by force
  obtain b2 where 2: "setUint16 b1 (off + 4) (case cover of Some c \<Rightarrow> c | None \<Rightarrow> 65535) = Some b2"
      "length b2 = length b1"
    using setUint16_ok [of "off + 4" b1] assms 1 by force
  obtain b3 where 3: "setUint16 b2 (off + 6) n = Some b3" "length b3 = length b2"
    using setUint16_ok [of "off + 6" b2] assms 1 2 by force
  show ?thesis using 1 2 3 by (simp add: writeTocHeader_def)
qed

lemma writeTocEntries_ok:
  "off + 96 * length es \<le> length buf \<Longrightarrow>
     \<exists>b. writeTocEntries buf off es = Some b \<and> length b = length buf"
proof (induction es arbitrary: buf off)
  case Nil
  then show ?case by simp
next
  case (Cons e es)
  have "off + length (take (min (length (title e)) (TOC_TITLE_SIZE - 1)) (encodeText (title e)))
          \<le> length buf"
    using Cons.prems by (simp add: encodeText_def TOC_TITLE_SIZE_def)
  from setBytes_ok [OF this] obtain b1 where
    1: "setBytes buf off (take (min (length (title e)) (TOC_TITLE_SIZE - 1)) (encodeText (title e)))
          = Some b1" "length b1 = length buf" by blast
  obtain b2 where 2: "setUint16 b1 (off + TOC_TITLE_SIZE) (nat (startPage e mod 65536)) = Some b2"
      "length b2 = length b1"
    using setUint16_ok [of "off + TOC_TITLE_SIZE" b1] Cons.prems 1
    by (force simp: TOC_TITLE_SIZE_def)
  obtain b3 where 3: "setUint16 b2 (off + TOC_TITLE_SIZE + 2) (nat (endPage e mod 65536)) = Some b3"
      "length b3 = length b2"
    using setUint16_ok [of "off + TOC_TITLE_SIZE + 2" b2] Cons.prems 1 2
    by (force simp: TOC_TITLE_SIZE_def)
  have "off + TOC_ENTRY_SIZE + 96 * length es \<le> length b3"
    using Cons.prems 1 2 3 by (simp add: TOC_ENTRY_SIZE_def)
  from Cons.IH [OF this] obtain b where
    4: "writeTocEntries b3 (off + TOC_ENTRY_SIZE) es = Some b" "length b = length b3" by blast
  show ?case using 1 2 3 4 by simp
qed

lemma writeMetadata_ok:
  assumes "off + 256 + 96 * length (toc m) \<le> length buf"
  shows "\<exists>b. writeMetadata now buf off m = Some b \<and> length b = length buf"
proof -
  obtain b1 where 1: "writeText buf off TITLE_SIZE (bookTitle m) = Some b1" "length b1 = length buf"
    using writeText_ok [of off TITLE_SIZE buf] assms by (force simp: container_sizes)
  obtain b2 where 2: "writeText b1 (off + TITLE_SIZE) AUTHOR_SIZE (author m) = Some b2"
      "length b2 = length buf"
    using writeText_ok [of "off + TITLE_SIZE" AUTHOR_SIZE b1] assms 1 by (force simp: container_sizes)
  obtain b3 where 3: "writeText b2 (off + TITLE_SIZE + AUTHOR_SIZE) PUBLISHER_SIZE (publisher m)
        = Some b3" "length b3 = length buf"
    using writeText_ok [of "off + TITLE_SIZE + AUTHOR_SIZE" PUBLISHER_SIZE b2] assms 2
    by (force simp: container_sizes)
  obtain b4 where 4: "writeText b3 (off + TITLE_SIZE + AUTHOR_SIZE + PUBLISHER_SIZE) LANGUAGE_SIZE
        (language m) = Some b4" "length b4 = length buf"
    using writeText_ok [of "off + TITLE_SIZE + AUTHOR_SIZE + PUBLISHER_SIZE" LANGUAGE_SIZE b3] assms 3
    by (force simp: container_sizes)
  obtain b5 where 5: "writeTocHeader now b4
        (off + TITLE_SIZE + AUTHOR_SIZE + PUBLISHER_SIZE + LANGUAGE_SIZE)
        (length (toc m)) (coverPage m) (createTime m) = Some b5" "length b5 = length buf"
    using writeTocHeader_ok [of "off + TITLE_SIZE + AUTHOR_SIZE + PUBLISHER_SIZE + LANGUAGE_SIZE" b4]
      assms 4 by (force simp: container_sizes)
  obtain b6 where 6: "writeTocEntries b5
        (off + TITLE_SIZE + AUTHOR_SIZE + PUBLISHER_SIZE + LANGUAGE_SIZE + TOC_HEADER_SIZE)
        (toc m) = Some b6" "length b6 = length buf"
    using writeTocEntries_ok [of "off + TITLE_SIZE + AUTHOR_SIZE + PUBLISHER_SIZE + LANGUAGE_SIZE
        + TOC_HEADER_SIZE" "toc m" b5] assms 5 by (force simp: container_sizes)
  show ?thesis
  proof (cases "length (toc m) > 0")
    case True
    then show ?thesis using 1 2 3 4 5 6 by (simp add: writeMetadata_def)
  next
    case False
    then show ?thesis using 1 2 3 4 5 by (simp add: writeMetadata_def)
  qed
qed

lemma getUint16_ok: "off + 2 \<le> length buf \<Longrightarrow> \<exists>v. getUint16 buf off = Some v"
  by (simp add: getUint16_def)

lemma writeIndexEntries_ok:
  "off + 16 * length blobs \<le> length buf \<Longrightarrow> \<forall>blob \<in> set blobs. 8 \<le> length blob \<Longrightarrow>
     \<exists>b. writeIndexEntries buf off rel blobs = Some b \<and> length b = length buf"
proof (induction blobs arbitrary: buf off rel)
  case Nil
  then show ?case by simp
next
  case (Cons blob blobs)
  obtain w where w: "getUint16 blob 4 = Some w" using getUint16_ok [of 4 blob] Cons.prems by force
  obtain h where h: "getUint16 blob 6 = Some h" using getUint16_ok [of 6 blob] Cons.prems by force
  obtain b1 where 1: "setBigUint64 buf off rel = Some b1" "length b1 = length buf"
    using setBigUint64_ok [of off buf] Cons.prems by force
  obtain b2 where 2: "setUint32 b1 (off + 8) (length blob) = Some b2" "length b2 = length buf"
    using setUint32_ok [of "off + 8" b1] Cons.prems 1 by force
  obtain b3 where 3: "setUint16 b2 (off + 12) w = Some b3" "length b3 = length buf"
    using setUint16_ok [of "off + 12" b2] Cons.prems 2 by force
  obtain b4 where 4: "setUint16 b3 (off + 14) h = Some b4" "length b4 = length buf"
    using setUint16_ok [of "off + 14" b3] Cons.prems 3 by force
  have "off + INDEX_ENTRY_SIZE + 16 * length blobs \<le> length b4"
    using Cons.prems 4 by (simp add: INDEX_ENTRY_SIZE_def)
  moreover have "\<forall>blob \<in> set blobs. 8 \<le> length blob" using Cons.prems by simp
  ultimately obtain b where
    5: "writeIndexEntries b4 (off + INDEX_ENTRY_SIZE) (rel + length blob) blobs = Some b"
       "length b = length b4"
    using Cons.IH by blast
  show ?case using w h 1 2 3 4 5 by simp
qed

lemma writePageData_ok:
  "off + sum_list (map length blobs) \<le> length buf \<Longrightarrow>
     \<exists>b. writePageData buf off blobs = Some b \<and> length b = length buf"
proof (induction blobs arbitrary: buf off)
  case Nil
  then show ?case by simp
next
  case (Cons blob blobs)
  obtain b1 where 1: "setBytes buf off blob = Some b1" "length b1 = length buf"
    using setBytes_ok [of off blob buf] Cons.prems by force
  have "off + length blob + sum_list (map length blobs) \<le> length b1"
    using Cons.prems 1 by simp
  from Cons.IH [OF this] obtain b where
    2: "writePageData b1 (off + length blob) blobs = Some b" "length b = length b1" by blast
  show ?case using 1 2 by simp
qed

lemma buildXtcFromBuffers_returns:
  assumes blobs: "\<forall>blob \<in> set blobs. 8 \<le> length blob"
  shows "\<exists>out. buildXtcFromBuffers now blobs metadataOpt twoBit = Some out"
proof -
  define hasMetadata where "hasMetadata = hasMetadataOf metadataOpt"
  define metadataSize where "metadataSize =
     (if hasMetadata
      then TITLE_SIZE + AUTHOR_SIZE + PUBLISHER_SIZE + LANGUAGE_SIZE + TOC_HEADER_SIZE
           + length (toc (the metadataOpt)) * TOC_ENTRY_SIZE
      else 0)"
  define headerSize where
    "headerSize = (if hasMetadata then HEADER_WITH_METADATA_SIZE else HEADER_BASE_SIZE)"
  define indexOffset where "indexOffset = headerSize + metadataSize"
  define dataOffset where "dataOffset = indexOffset + length blobs * INDEX_ENTRY_SIZE"
  define buffer :: "nat list" where
    "buffer = replicate (dataOffset + sum_list (map length blobs)) 0"
  have len: "length buffer = dataOffset + sum_list (map length blobs)"
    by (simp add: buffer_def)
  have hs: "48 \<le> headerSize" by (simp add: headerSize_def container_sizes)
  then have d48: "48 \<le> length buffer" by (simp add: len dataOffset_def indexOffset_def)
  define magic :: "nat list" where
    "magic = (if twoBit then [88, 84, 67, 72] else [88, 84, 67, 0])"
  have "0 + length magic \<le> length buffer" using d48 by (simp add: magic_def)
  from setBytes_ok [OF this] obtain b1 where
    1: "setBytes buffer 0 magic = Some b1" and l1: "length b1 = length buffer" by blast
  have "4 + 2 \<le> length b1" using d48 l1 by simp
  from setUint16_ok [OF this] obtain b2 where
    2: "setUint16 b1 4 1 = Some b2" and l2: "length b2 = length b1" by blast
  have "6 + 2 \<le> length b2" using d48 l1 l2 by simp
  from setUint16_ok [OF this] obtain b3 where
    3: "setUint16 b2 6 (length blobs) = Some b3" and l3: "length b3 = length b2" by blast
  have "8 + 4 \<le> length b3" using d48 l1 l2 l3 by simp
  from setUint32_ok [OF this] obtain b4 where
    4: "setUint32 b3 8 (if hasMetadata then FLAG_HAS_METADATA_LOW else 0) = Some b4"
    and l4: "length b4 = length b3" by blast
  have "12 + 4 \<le> length b4" using d48 l1 l2 l3 l4 by simp
  from setUint32_ok [OF this] obtain b5 where
    5: "setUint32 b4 12 (if hasMetadata then FLAG_HAS_METADATA_HIGH else 0) = Some b5"
    and l5: "length b5 = length b4" by blast
  have "16 + 8 \<le> length b5" using d48 l1 l2 l3 l4 l5 by simp
  from setBigUint64_ok [OF this] obtain b6 where
    6: "setBigUint64 b5 16 (if hasMetadata then HEADER_WITH_METADATA_SIZE else 0) = Some b6"
    and l6: "length b6 = length b5" by blast
  have "24 + 8 \<le> length b6" using d48 l1 l2 l3 l4 l5 l6 by simp
  from setBigUint64_ok [OF this] obtain b7 where
    7: "setBigUint64 b6 24 indexOffset = Some b7" and l7: "length b7 = length b6" by blast
  have "32 + 8 \<le> length b7" using d48 l1 l2 l3 l4 l5 l6 l7 by simp
  from setBigUint64_ok [OF this] obtain b8 where
    8: "setBigUint64 b7 32 dataOffset = Some b8" and l8: "length b8 = length b7" by blast
  have "40 + 8 \<le> length b8" using d48 l1 l2 l3 l4 l5 l6 l7 l8 by simp
  from setBigUint64_ok [OF this] obtain b9 where
    9: "setBigUint64 b8 40 0 = Some b9" and l9': "length b9 = length b8" by blast
  have l9: "length b9 = length buffer" using l1 l2 l3 l4 l5 l6 l7 l8 l9' by simp
  define tocEntriesOffset where "tocEntriesOffset =
     (if hasMetadata
      then HEADER_WITH_METADATA_SIZE + TITLE_SIZE + AUTHOR_SIZE + PUBLISHER_SIZE
           + LANGUAGE_SIZE + TOC_HEADER_SIZE
      else 0)"
  have "\<exists>b10. (if hasMetadata then setBigUint64 b9 48 tocEntriesOffset else Some b9) = Some b10
          \<and> length b10 = length buffer"
  proof (cases hasMetadata)
    case True
    then have "48 + 8 \<le> length b9"
      using l9 by (simp add: len dataOffset_def indexOffset_def headerSize_def container_sizes)
    from setBigUint64_ok [OF this, of tocEntriesOffset] show ?thesis using True l9 by simp
  next
    case False
    then show ?thesis using l9 by simp
  qed
  then obtain b10 where
    10: "(if hasMetadata then setBigUint64 b9 48 tocEntriesOffset else Some b9) = Some b10"
    and l10: "length b10 = length buffer" by blast
  have "\<exists>b11. (if hasMetadata
        then writeMetadata now b10 HEADER_WITH_METADATA_SIZE (the metadataOpt)
        else Some b10) = Some b11 \<and> length b11 = length buffer"
  proof (cases hasMetadata)
    case True
    then have "HEADER_WITH_METADATA_SIZE + 256 + 96 * length (toc (the metadataOpt)) \<le> length b10"
      using l10 by (simp add: len dataOffset_def indexOffset_def headerSize_def metadataSize_def
          container_sizes)
    from writeMetadata_ok [OF this, of now] show ?thesis using True l10 by simp
  next
    case False
    then show ?thesis using l10 by simp
  qed
  then obtain b11 where
    11: "(if hasMetadata then writeMetadata now b10 HEADER_WITH_METADATA_SIZE (the metadataOpt)
          else Some b10) = Some b11"
    and l11: "length b11 = length buffer" by blast
  have "indexOffset + 16 * length blobs \<le> length b11"
    using l11 by (simp add: len dataOffset_def INDEX_ENTRY_SIZE_def)
  from writeIndexEntries_ok [OF this blobs, of dataOffset] obtain b12 where
    12: "writeIndexEntries b11 indexOffset dataOffset blobs = Some b12"
    and l12: "length b12 = length b11" by blast
  have "dataOffset + sum_list (map length blobs) \<le> length b12" using l12 l11 by (simp add: len)
  from writePageData_ok [OF this] obtain out where
    13: "writePageData b12 dataOffset blobs = Some out" by blast
  have "buildXtcFromBuffers now blobs metadataOpt twoBit = Some out"
    unfolding buildXtcFromBuffers_def Let_def
    unfolding hasMetadata_def [symmetric]
    unfolding metadataSize_def [symmetric] headerSize_def [symmetric]
    unfolding indexOffset_def [symmetric]
    unfolding dataOffset_def [symmetric]
    unfolding tocEntriesOffset_def [symmetric]
    unfolding buffer_def [symmetric] magic_def [symmetric]
    by (simp only: 1 2 3 4 5 6 7 8 9 10 11 12 13 Option.bind.bind_lunit)
  then show ?thesis by blast
qed

text \<open>
  Claim C6, as the code has it. The writer returns a file whenever every chunk has its
  8 header bytes; two runs give the same bytes whatever the clock reads when the
  metadata carries a nonzero \<open>createTime\<close>, or when no metadata block is written;
  and when a metadata block is written without a \<open>createTime\<close>, the TOC header's
  \<open>createTime\<close> field (file offset 296) holds the clock reading modulo \<open>2^32\<close>.
\<close>

theorem container_bytes_and_clock:
  "((\<forall>blob \<in> set blobs. 8 \<le> length blob) \<longrightarrow>
       (\<exists>out. buildXtcFromBuffers now1 blobs metadataOpt twoBit = Some out))
   \<and> (\<forall>m t. metadataOpt = Some m \<and> createTime m = Some t \<and> t \<noteq> 0 \<longrightarrow>
       buildXtcFromBuffers now1 blobs metadataOpt twoBit
         = buildXtcFromBuffers now2 blobs metadataOpt twoBit)
   \<and> (\<not> hasMetadataOf metadataOpt \<longrightarrow>
       buildXtcFromBuffers now1 blobs metadataOpt twoBit
         = buildXtcFromBuffers now2 blobs metadataOpt twoBit)
   \<and> (\<forall>m out. metadataOpt = Some m \<and> hasMetadataOf metadataOpt \<and> createTime m = None
         \<and> buildXtcFromBuffers now1 blobs metadataOpt twoBit = Some out \<longrightarrow>
       getUint32 out 296 = Some (now1 mod 2 ^ 32))"
proof (intro conjI allI impI)
  assume "\<forall>blob \<in> set blobs. 8 \<le> length blob"
  then show "\<exists>out. buildXtcFromBuffers now1 blobs metadataOpt twoBit = Some out"
    by (rule buildXtcFromBuffers_returns)
next
  fix m t assume a: "metadataOpt = Some m \<and> createTime m = Some t \<and> t \<noteq> 0"
  then have eq: "\<And>buf off. writeMetadata now1 buf off (the metadataOpt)
                   = writeMetadata now2 buf off (the metadataOpt)"
    using writeMetadata_given_createTime [of m t now1 _ _ now2] by simp
  show "buildXtcFromBuffers now1 blobs metadataOpt twoBit
         = buildXtcFromBuffers now2 blobs metadataOpt twoBit"
    unfolding buildXtcFromBuffers_def eq ..
next
  assume "\<not> hasMetadataOf metadataOpt"
  then show "buildXtcFromBuffers now1 blobs metadataOpt twoBit
         = buildXtcFromBuffers now2 blobs metadataOpt twoBit"
    unfolding buildXtcFromBuffers_def Let_def by (simp cong: if_cong)
next
  fix m out
  assume a: "metadataOpt = Some m \<and> hasMetadataOf metadataOpt \<and> createTime m = None
         \<and> buildXtcFromBuffers now1 blobs metadataOpt twoBit = Some out"
  then have "hasMetadataOf (Some m)"
    and "buildXtcFromBuffers now1 blobs (Some m) twoBit = Some out" by auto
  then have "getUint32 out 296 = Some (tocTimestamp now1 (createTime m) mod 2 ^ 32)"
    by (rule buildXtcFromBuffers_timestamp)
  then show "getUint32 out 296 = Some (now1 mod 2 ^ 32)"
    using a by (simp add: tocTimestamp_def)
qed

theorem container_bytes_and_clock_witness:
  "list_all (\<lambda>blob. 8 \<le> length blob) [examplePage]
   \<and> createTime (exampleMetadata (Some 5)) = Some 5 \<and> (5 :: nat) \<noteq> 0
   \<and> buildXtcFromBuffers 1 [examplePage] (Some (exampleMetadata (Some 5))) False
        = buildXtcFromBuffers 2 [examplePage] (Some (exampleMetadata (Some 5))) False
   \<and> buildXtcFromBuffers 1 [examplePage] (Some (exampleMetadata (Some 5))) False \<noteq> None
   \<and> \<not> hasMetadataOf None
   \<and> buildXtcFromBuffers 1 [examplePage] None False
        = buildXtcFromBuffers 2 [examplePage] None False
   \<and> hasMetadataOf (Some (exampleMetadata None))
   \<and> createTime (exampleMetadata None) = None
   \<and> (\<exists>out. buildXtcFromBuffers 7 [examplePage] (Some (exampleMetadata None)) False = Some out
          \<and> getUint32 out 296 = Some 7)"
proof -
  have pg: "\<forall>blob \<in> set [examplePage]. 8 \<le> length blob" by (simp add: examplePage_def)
  have ct: "createTime (exampleMetadata (Some 5)) = Some 5" "createTime (exampleMetadata None) = None"
    by (simp_all add: exampleMetadata_def)
  have has: "\<not> hasMetadataOf None" "hasMetadataOf (Some (exampleMetadata None))"
    by (simp_all add: hasMetadataOf_def exampleMetadata_def)
  note A = container_bytes_and_clock
             [of "[examplePage]" 1 "Some (exampleMetadata (Some 5))" False 2]
  note B = container_bytes_and_clock [of "[examplePage]" 1 None False 2]
  note C = container_bytes_and_clock [of "[examplePage]" 7 "Some (exampleMetadata None)" False 2]
  from A pg obtain out5 where
    out5: "buildXtcFromBuffers 1 [examplePage] (Some (exampleMetadata (Some 5))) False = Some out5"
    by blast
  from A ct have eq5: "buildXtcFromBuffers 1 [examplePage] (Some (exampleMetadata (Some 5))) False
        = buildXtcFromBuffers 2 [examplePage] (Some (exampleMetadata (Some 5))) False"
    by simp
  from B has have eqN: "buildXtcFromBuffers 1 [examplePage] None False
        = buildXtcFromBuffers 2 [examplePage] None False"
    by blast
  from C pg obtain out where
    out: "buildXtcFromBuffers 7 [examplePage] (Some (exampleMetadata None)) False = Some out"
    by blast
  with C has ct have "getUint32 out 296 = Some (7 mod 2 ^ 32)" by simp
  then have ts: "\<exists>out. buildXtcFromBuffers 7 [examplePage] (Some (exampleMetadata None)) False = Some out
          \<and> getUint32 out 296 = Some 7" using out by simp
  have la: "list_all (\<lambda>blob. 8 \<le> length blob) [examplePage]" by (simp add: examplePage_def)
  have n5: "(5 :: nat) \<noteq> 0" by simp
  have nn: "buildXtcFromBuffers 1 [examplePage] (Some (exampleMetadata (Some 5))) False \<noteq> None"
    using out5 by simp
  from la ct(1) n5 eq5 nn has(1) eqN has(2) ct(2) ts show ?thesis by blast
qed

text \<open>
  With \<open>createTime\<close> zero, or absent, two runs at different clock readings give
  different files.
\<close>

theorem container_clock_counterexample:
  "buildXtcFromBuffers 1 [examplePage] (Some (exampleMetadata (Some 0))) False
     \<noteq> buildXtcFromBuffers 2 [examplePage] (Some (exampleMetadata (Some 0))) False
   \<and> buildXtcFromBuffers 1 [examplePage] (Some (exampleMetadata None)) False
     \<noteq> buildXtcFromBuffers 2 [examplePage] (Some (exampleMetadata None)) False"
proof -
  have pg: "\<forall>blob \<in> set [examplePage]. 8 \<le> length blob" by (simp add: examplePage_def)
  have differ: "buildXtcFromBuffers 1 [examplePage] (Some (exampleMetadata ct)) False
     \<noteq> buildXtcFromBuffers 2 [examplePage] (Some (exampleMetadata ct)) False"
    if ct: "tocTimestamp 1 ct = 1" "tocTimestamp 2 ct = 2" for ct
  proof -
    have has: "hasMetadataOf (Some (exampleMetadata ct))"
      by (simp add: hasMetadataOf_def exampleMetadata_def)
    have c: "createTime (exampleMetadata ct) = ct" by (simp add: exampleMetadata_def)
    obtain out1 where
      1: "buildXtcFromBuffers 1 [examplePage] (Some (exampleMetadata ct)) False = Some out1"
      using buildXtcFromBuffers_returns [OF pg] by blast
    obtain out2 where
      2: "buildXtcFromBuffers 2 [examplePage] (Some (exampleMetadata ct)) False = Some out2"
      using buildXtcFromBuffers_returns [OF pg] by blast
    have "getUint32 out1 296 = Some 1"
      using buildXtcFromBuffers_timestamp [OF has 1] ct by (simp add: c)
    moreover have "getUint32 out2 296 = Some 2"
      using buildXtcFromBuffers_timestamp [OF has 2] ct by (simp add: c)
    ultimately have "out1 \<noteq> out2" by auto
    then show ?thesis using 1 2 by simp
  qed
  show ?thesis using differ [of "Some 0"] differ [of None] by (simp add: tocTimestamp_def)
qed

section \<open>Properties of the container reader\<close>


lemma dangling_reads:
  "getUint32 danglingIndexFile 8 = Some 0"
  "getUint16 danglingIndexFile 4 = Some 1"
  "getUint16 danglingIndexFile 6 = Some 1"
  "getBigUint64 danglingIndexFile 16 = Some 0"
  "getBigUint64 danglingIndexFile 24 = Some 48"
  "getBigUint64 danglingIndexFile 32 = Some 64"
  "getBigUint64 danglingIndexFile 48 = Some 1000"
  "getUint32 danglingIndexFile 56 = Some 10"
  "getUint16 danglingIndexFile 60 = Some 480"
  "getUint16 danglingIndexFile 62 = Some 800"
  "take 3 danglingIndexFile = [88, 84, 67]"
  "danglingIndexFile ! 3 = 0"
  by (simp_all add: getUint32_def getUint16_def getBigUint64_def danglingIndexFile_def)


lemma dangling_entries:
  "parseIndexEntries danglingIndexFile 48 1 =
     Some [\<lparr>entryOffset = 1000, entrySize = 10, entryWidth = 480, entryHeight = 800\<rparr>]"
proof -
  have "parseIndexEntries danglingIndexFile 48 (Suc 0) =
     Some [\<lparr>entryOffset = 1000, entrySize = 10, entryWidth = 480, entryHeight = 800\<rparr>]"
    by (simp add: parseIndexEntry_def dangling_reads)
  then show ?thesis by simp
qed





















section \<open>Properties of the page packers and the page decoder\<close>

subsection \<open>Setting bits in a byte array\<close>

lemma orBit_length [simp]: "length (orBit arr i k) = length arr"
  by (simp add: orBit_def)

lemma bit_orBit_byte:
  assumes n: "n < 8"
  shows "bit ((a OR 2 ^ k) mod (256::nat)) n \<longleftrightarrow> bit a n \<or> n = k"
proof -
  have e: "x mod 256 = take_bit 8 x" for x :: nat by (simp add: take_bit_eq_mod)
  have p: "bit (2 ^ k :: nat) n \<longleftrightarrow> n = k"
    by (simp add: bit_exp_iff)
  show ?thesis unfolding e bit_take_bit_iff bit_or_iff p using n by simp
qed

lemma bit_orBit:
  assumes "j < length arr" "n < 8"
  shows "bit (orBit arr i k ! j) n \<longleftrightarrow> bit (arr ! j) n \<or> (i = j \<and> k = n)"
proof (cases "i = j")
  case True
  then have "orBit arr i k ! j = (arr ! j OR 2 ^ k) mod 256"
    using assms(1) by (simp add: orBit_def)
  then show ?thesis using True assms(2) by (auto simp: bit_orBit_byte)
next
  case False
  then show ?thesis by (simp add: orBit_def)
qed

lemma foldl_orBit_length:
  "length (foldl (\<lambda>a c. if on c then orBit a (bytePos c) (bitPos c) else a) arr cs) = length arr"
  by (induction cs arbitrary: arr) auto

lemma foldl_orBit_bit:
  assumes "j < length arr" "n < 8"
  shows "bit (foldl (\<lambda>a c. if on c then orBit a (bytePos c) (bitPos c) else a) arr cs ! j) n
         \<longleftrightarrow> bit (arr ! j) n \<or> (\<exists>c \<in> set cs. on c \<and> bytePos c = j \<and> bitPos c = n)"
  using assms
proof (induction cs arbitrary: arr)
  case Nil
  then show ?case by simp
next
  case (Cons c cs)
  show ?case
  proof (cases "on c")
    case True
    have "j < length (orBit arr (bytePos c) (bitPos c))" using Cons.prems by simp
    from Cons.IH [OF this Cons.prems(2)] show ?thesis
      using True Cons.prems by (auto simp: bit_orBit)
  next
    case False
    then show ?thesis using Cons.IH [OF Cons.prems] by auto
  qed
qed

lemma set_scanOrder: "set (scanOrder w h) = {(x, y). x < w \<and> y < h}"
  by (auto simp: scanOrder_def)

lemma set_columnOrder: "set (columnOrder w h) = {(x, y). x < w \<and> y < h}"
  by (auto simp: columnOrder_def)

lemma foldl_pair_fst:
  "fst (foldl (\<lambda>(a, b) c. (f a c, g b c)) (a0, b0) cs) = foldl f a0 cs"
  by (induction cs arbitrary: a0 b0) auto

lemma foldl_pair_snd:
  "snd (foldl (\<lambda>(a, b) c. (f a c, g b c)) (a0, b0) cs) = foldl g b0 cs"
  by (induction cs arbitrary: a0 b0) auto

lemma paintPixels_length: "length (paintPixels w h color) = 4 * (w * h)"
proof -
  have "length (concat (map (\<lambda>i. let c = f i in [c, c, c, 255::nat]) [0..<n])) = 4 * n" for f n
    by (induction n) (simp_all add: Let_def)
  then show ?thesis by (simp add: paintPixels_def)
qed

lemma concat_blocks_nth:
  assumes "i < n" "j < 4"
  shows "concat (map (\<lambda>i. [f i, f i, f i, 255::nat]) [0..<n]) ! (4 * i + j)
         = [f i, f i, f i, 255] ! j"
  using assms
proof (induction n)
  case 0
  then show ?case by simp
next
  case (Suc n)
  have len: "length (concat (map (\<lambda>i. [f i, f i, f i, 255::nat]) [0..<n])) = 4 * n"
    by (induction n) simp_all
  show ?case
  proof (cases "i < n")
    case True
    then have "4 * i + j < 4 * n" using Suc.prems by simp
    then show ?thesis using Suc.IH [OF True Suc.prems(2)] by (simp add: nth_append len)
  next
    case False
    then have "i = n" using Suc.prems by simp
    then show ?thesis using Suc.prems by (simp add: nth_append len)
  qed
qed

lemma paintPixels_nth:
  assumes "i < w * h" "j < 3"
  shows "paintPixels w h color ! (4 * i + j) = color (i mod w) (i div w)"
proof -
  have "paintPixels w h color ! (4 * i + j)
      = [color (i mod w) (i div w), color (i mod w) (i div w), color (i mod w) (i div w), 255] ! j"
    unfolding paintPixels_def Let_def using assms
    by (intro concat_blocks_nth [of i "w * h" j "\<lambda>i. color (i mod w) (i div w)"]) simp_all
  then show ?thesis using assms by (auto simp: less_Suc_eq numeral_3_eq_3)
qed

lemma bit_read:
  "drop_bit k (a::nat) AND 1 \<noteq> 0 \<longleftrightarrow> bit a k"
  by (simp add: and_one_eq bit_iff_odd_drop_bit odd_iff_mod_2_eq_one)

lemma row_position_unique:
  assumes "a < rb" "a' < rb" "y * rb + a = y' * rb + (a'::nat)"
  shows "y = y' \<and> a = a'"
proof -
  have "(y * rb + a) div rb = y" "(y' * rb + a') div rb = y'"
    "(y * rb + a) mod rb = a" "(y' * rb + a') mod rb = a'"
    using assms(1,2) by simp_all
  then show ?thesis using assms(3) by metis
qed

subsection \<open>Reading back the 22-byte chunk header\<close>

lemma u16_roundtrip: "v < 65536 \<Longrightarrow> v mod 256 + 256 * (v div 256 mod 256) = (v::nat)"
  using u16_recombine [of v] by simp

lemma chunk_header_reads:
  fixes m3 :: nat and payload dg :: "nat list" and w h n :: nat
  assumes dg: "length dg = 8" and w: "w < 65536" and h: "h < 65536" and n: "n < 2 ^ 32"
  defines "chunk \<equiv> [88, 84, m3, 0] @ u16le w @ u16le h @ [0] @ [0] @ u32le n @ dg @ payload"
  shows "take 3 chunk = [88, 84, m3]"
    and "getUint16 chunk 4 = Some w"
    and "getUint16 chunk 6 = Some h"
    and "getUint32 chunk 10 = Some n"
    and "drop 22 chunk = payload"
    and "length chunk = 22 + length payload"
proof -
  have c: "chunk = [88, 84, m3, 0, w mod 256, w div 256 mod 256, h mod 256, h div 256 mod 256,
      0, 0, n mod 256, n div 256 mod 256, n div 65536 mod 256, n div 16777216 mod 256]
      @ dg @ payload"
    by (simp add: chunk_def u16le_def u32le_def)
  show "take 3 chunk = [88, 84, m3]" by (simp add: c)
  show len: "length chunk = 22 + length payload" by (simp add: c dg)
  show "getUint16 chunk 4 = Some w"
    using u16_roundtrip [OF w] by (simp add: getUint16_def len) (simp add: c)
  show "getUint16 chunk 6 = Some h"
    using u16_roundtrip [OF h] by (simp add: getUint16_def len) (simp add: c)
  have "n mod 4294967296 = n" using n by simp
  then show "getUint32 chunk 10 = Some n"
    using u32_recombine [of n] by (simp add: getUint32_def len) (simp add: c)
  show "drop 22 chunk = payload" by (simp add: c dg)
qed

subsection \<open>The packed bit of a pixel\<close>

lemma stride_bound: "x < w \<Longrightarrow> x div 8 < (w + 7) div (8::nat)"
  by (simp add: div_less_iff_less_mult)

lemma cell_in_range:
  assumes "a < rb" "y < (h::nat)"
  shows "y * rb + a < rb * h"
proof -
  have "y * rb + a < Suc y * rb" using assms(1) by simp
  also have "\<dots> \<le> h * rb" using assms(2) by (intro mult_le_mono1) simp
  finally show ?thesis by (simp add: mult.commute)
qed

lemma pixel_index: "0 < w \<Longrightarrow> (i div w * w + i mod w) * 4 = 4 * (i::nat)"
  by simp

lemma pixel_coords:
  assumes "i < w * (h::nat)"
  shows "i mod w < w \<and> i div w < h"
proof -
  have "0 < w" using assms by (cases w) simp_all
  moreover have "i < h * w" using assms by (simp add: mult.commute)
  ultimately show ?thesis by (simp add: less_mult_imp_div_less)
qed

lemma xtgPixelData_alt:
  "xtgPixelData img =
     foldl (\<lambda>a c. if pixelByte (imgData img) ((snd c * imgWidth img + fst c) * 4) \<ge> 128
                   then orBit a (snd c * ((imgWidth img + 7) div 8) + fst c div 8) (7 - fst c mod 8)
                   else a)
       (replicate ((imgWidth img + 7) div 8 * imgHeight img) 0)
       (scanOrder (imgWidth img) (imgHeight img))"
  unfolding xtgPixelData_def Let_def
  by (rule arg_cong [where f = "\<lambda>f. foldl f _ _"]) (auto simp: fun_eq_iff)

lemma xtgPixelData_length:
  "length (xtgPixelData img) = (imgWidth img + 7) div 8 * imgHeight img"
  unfolding xtgPixelData_alt by (simp add: foldl_orBit_length)

lemma xtgPixelData_bit:
  assumes x: "x < imgWidth img" and y: "y < imgHeight img"
  shows "bit (xtgPixelData img ! (y * ((imgWidth img + 7) div 8) + x div 8)) (7 - x mod 8)
         \<longleftrightarrow> pixelByte (imgData img) ((y * imgWidth img + x) * 4) \<ge> 128"
proof -
  define rb where "rb = (imgWidth img + 7) div 8"
  have j: "y * rb + x div 8 < length (replicate (rb * imgHeight img) (0::nat))"
    using cell_in_range [OF stride_bound [OF x] y] by (simp add: rb_def)
  have n: "7 - x mod 8 < 8" by simp
  have uniq: "x' = x \<and> y' = y"
    if "x' < imgWidth img" "y' * rb + x' div 8 = y * rb + x div 8" "7 - x' mod 8 = 7 - x mod 8"
    for x' y'
  proof -
    have d: "y' = y \<and> x' div 8 = x div 8"
      using row_position_unique [of "x' div 8" rb "x div 8" y' y]
        stride_bound [OF that(1)] stride_bound [OF x] that(2) by (simp add: rb_def)
    have m: "x' mod 8 = x mod 8"
    proof -
      have "x' mod 8 < 8" "x mod 8 < 8" by simp_all
      then show ?thesis using that(3) by linarith
    qed
    have "x' = 8 * (x' div 8) + x' mod 8" by simp
    also have "\<dots> = 8 * (x div 8) + x mod 8" by (simp only: d m)
    also have "\<dots> = x" by simp
    finally show ?thesis using d by simp
  qed
  have z: "\<not> bit (replicate (rb * imgHeight img) (0::nat) ! (y * rb + x div 8)) (7 - x mod 8)"
    using j by simp
  show ?thesis
    unfolding xtgPixelData_alt rb_def [symmetric]
    unfolding foldl_orBit_bit [OF j n] set_scanOrder
    using x y uniq z by auto
qed

lemma xtgColor_packed:
  assumes x: "x < imgWidth img" and y: "y < imgHeight img"
  shows "xtgColor (xtgPixelData img) (imgWidth img) x y
         = (if pixelByte (imgData img) ((y * imgWidth img + x) * 4) \<ge> 128 then 255 else 0)"
proof -
  have "y * ((imgWidth img + 7) div 8) + x div 8 < length (xtgPixelData img)"
    using cell_in_range [OF stride_bound [OF x] y] by (simp add: xtgPixelData_length)
  then have pb: "pixelByte (xtgPixelData img) (y * ((imgWidth img + 7) div 8) + x div 8)
      = xtgPixelData img ! (y * ((imgWidth img + 7) div 8) + x div 8)"
    by (simp add: pixelByte_def)
  show ?thesis
    unfolding xtgColor_def Let_def pb bit_read xtgPixelData_bit [OF x y] ..
qed

lemma plane_bit:
  fixes on :: "nat \<times> nat \<Rightarrow> bool"
  assumes x: "x < w" and y: "y < h"
  shows "bit (foldl (\<lambda>a c. if on c
                            then orBit a ((w - 1 - fst c) * ((h + 7) div 8) + snd c div 8)
                                   (7 - snd c mod 8)
                            else a)
                (replicate ((h + 7) div 8 * w) 0) (columnOrder w h)
              ! ((w - 1 - x) * ((h + 7) div 8) + y div 8)) (7 - y mod 8)
         \<longleftrightarrow> on (x, y)"
proof -
  define cb where "cb = (h + 7) div 8"
  have col: "w - 1 - x < w" using x by simp
  have j: "(w - 1 - x) * cb + y div 8 < length (replicate (cb * w) (0::nat))"
    using cell_in_range [OF stride_bound [OF y] col] by (simp add: cb_def)
  have n: "7 - y mod 8 < 8" by simp
  have uniq: "x' = x \<and> y' = y"
    if "x' < w" "y' < h" "(w - 1 - x') * cb + y' div 8 = (w - 1 - x) * cb + y div 8"
      "7 - y' mod 8 = 7 - y mod 8"
    for x' y'
  proof -
    have d: "w - 1 - x' = w - 1 - x \<and> y' div 8 = y div 8"
      using row_position_unique [of "y' div 8" cb "y div 8" "w - 1 - x'" "w - 1 - x"]
        stride_bound [OF that(2)] stride_bound [OF y] that(3) by (simp add: cb_def)
    have m: "y' mod 8 = y mod 8"
    proof -
      have "y' mod 8 < 8" "y mod 8 < 8" by simp_all
      then show ?thesis using that(4) by linarith
    qed
    have "y' = 8 * (y' div 8) + y' mod 8" by simp
    also have "\<dots> = 8 * (y div 8) + y mod 8" by (simp only: d m)
    also have "\<dots> = y" by simp
    finally have "y' = y" .
    moreover have "x' = x" using d that(1) x by linarith
    ultimately show ?thesis by simp
  qed
  have z: "\<not> bit (replicate (cb * w) (0::nat) ! ((w - 1 - x) * cb + y div 8)) (7 - y mod 8)"
    using j by simp
  show ?thesis
    unfolding cb_def [symmetric]
    unfolding foldl_orBit_bit [OF j n] set_columnOrder
    using x y uniq z by auto
qed

lemma xthPlanes_alt:
  "xthPlanes img =
     foldl (\<lambda>(a, b) c.
              (if xthLevel (pixelByte (imgData img) ((snd c * imgWidth img + fst c) * 4)) AND 1 \<noteq> 0
               then orBit a ((imgWidth img - 1 - fst c) * ((imgHeight img + 7) div 8) + snd c div 8)
                      (7 - snd c mod 8)
               else a,
               if xthLevel (pixelByte (imgData img) ((snd c * imgWidth img + fst c) * 4)) AND 2 \<noteq> 0
               then orBit b ((imgWidth img - 1 - fst c) * ((imgHeight img + 7) div 8) + snd c div 8)
                      (7 - snd c mod 8)
               else b))
       (replicate ((imgHeight img + 7) div 8 * imgWidth img) 0,
        replicate ((imgHeight img + 7) div 8 * imgWidth img) 0)
       (columnOrder (imgWidth img) (imgHeight img))"
  unfolding xthPlanes_def Let_def
  by (rule arg_cong [where f = "\<lambda>f. foldl f _ _"]) (auto simp: fun_eq_iff)

lemma xthPlanes_length:
  "length (fst (xthPlanes img)) = (imgHeight img + 7) div 8 * imgWidth img"
  "length (snd (xthPlanes img)) = (imgHeight img + 7) div 8 * imgWidth img"
  unfolding xthPlanes_alt foldl_pair_fst foldl_pair_snd
  by (simp_all add: foldl_orBit_length)

lemma xthPlanes_bit:
  assumes x: "x < imgWidth img" and y: "y < imgHeight img"
  shows "bit (fst (xthPlanes img)
              ! ((imgWidth img - 1 - x) * ((imgHeight img + 7) div 8) + y div 8)) (7 - y mod 8)
         \<longleftrightarrow> xthLevel (pixelByte (imgData img) ((y * imgWidth img + x) * 4)) AND 1 \<noteq> 0"
    and "bit (snd (xthPlanes img)
              ! ((imgWidth img - 1 - x) * ((imgHeight img + 7) div 8) + y div 8)) (7 - y mod 8)
         \<longleftrightarrow> xthLevel (pixelByte (imgData img) ((y * imgWidth img + x) * 4)) AND 2 \<noteq> 0"
  unfolding xthPlanes_alt foldl_pair_fst foldl_pair_snd
  using plane_bit [OF x y,
      of "\<lambda>c. xthLevel (pixelByte (imgData img) ((snd c * imgWidth img + fst c) * 4)) AND 1 \<noteq> 0"]
    plane_bit [OF x y,
      of "\<lambda>c. xthLevel (pixelByte (imgData img) ((snd c * imgWidth img + fst c) * 4)) AND 2 \<noteq> 0"]
  by simp_all

lemma bit_read_value: "drop_bit k (a::nat) AND 1 = (if bit a k then 1 else 0)"
  by (simp add: and_one_eq bit_iff_odd_drop_bit odd_iff_mod_2_eq_one)

lemma level_bits:
  "(0::nat) AND 1 = 0" "(0::nat) AND 2 = 0" "(1::nat) AND 1 = 1" "(1::nat) AND 2 = 0"
  "(2::nat) AND 1 = 0" "(2::nat) AND 2 = 2" "(3::nat) AND 1 = 1" "(3::nat) AND 2 = 2"
  "(0::nat) OR push_bit 1 0 = 0" "(1::nat) OR push_bit 1 0 = 1"
  "(0::nat) OR push_bit 1 1 = 2" "(1::nat) OR push_bit 1 1 = 3"
  by simp_all

lemma xthColor_packed:
  assumes x: "x < imgWidth img" and y: "y < imgHeight img"
  shows "xthColor (fst (xthPlanes img)) (snd (xthPlanes img)) (imgWidth img) (imgHeight img) x y
         = (let gray = pixelByte (imgData img) ((y * imgWidth img + x) * 4)
            in if gray \<ge> 212 then 255 else if gray \<ge> 127 then 170
               else if gray \<ge> 42 then 85 else 0)"
proof -
  have col: "imgWidth img - 1 - x < imgWidth img" using x by simp
  have j: "(imgWidth img - 1 - x) * ((imgHeight img + 7) div 8) + y div 8
      < (imgHeight img + 7) div 8 * imgWidth img"
    using cell_in_range [OF stride_bound [OF y] col] .
  have pb: "pixelByte (fst (xthPlanes img))
        ((imgWidth img - 1 - x) * ((imgHeight img + 7) div 8) + y div 8)
      = fst (xthPlanes img) ! ((imgWidth img - 1 - x) * ((imgHeight img + 7) div 8) + y div 8)"
    "pixelByte (snd (xthPlanes img))
        ((imgWidth img - 1 - x) * ((imgHeight img + 7) div 8) + y div 8)
      = snd (xthPlanes img) ! ((imgWidth img - 1 - x) * ((imgHeight img + 7) div 8) + y div 8)"
    using j by (simp_all add: pixelByte_def xthPlanes_length)
  show ?thesis
    unfolding xthColor_def Let_def pb bit_read_value xthPlanes_bit [OF x y]
    by (simp add: xthLevel_def level_bits)
qed

subsection \<open>Decoding a packed chunk\<close>

lemma payload_size_bound:
  assumes "w < 65536" "h < (65536::nat)"
  shows "(w + 7) div 8 * h < 2 ^ 32"
proof -
  have "(w + 7) div 8 \<le> 8192" using assms(1) by simp
  then have "(w + 7) div 8 * h \<le> 8192 * 65536"
    using assms(2) by (intro mult_le_mono) simp_all
  then show ?thesis by simp
qed

lemma decode_imageDataToXtg:
  assumes w: "0 < imgWidth img" "imgWidth img < 65536"
    and h: "0 < imgHeight img" "imgHeight img < 65536"
  shows "decodeXtcPageToCanvas (imageDataToXtg img)
         = Inr \<lparr>imgWidth = imgWidth img, imgHeight = imgHeight img,
                 imgData = paintPixels (imgWidth img) (imgHeight img)
                             (xtgColor (xtgPixelData img) (imgWidth img))\<rparr>"
proof -
  define pd where "pd = xtgPixelData img"
  define dg where "dg = take 8 pd @ replicate (8 - min 8 (length pd)) 0"
  define chunk where "chunk = [88, 84, 71, 0] @ u16le (imgWidth img) @ u16le (imgHeight img)
      @ [0] @ [0] @ u32le (length pd) @ dg @ pd"
  have dg: "length dg = 8" by (simp add: dg_def)
  have n: "length pd < 2 ^ 32"
    unfolding pd_def xtgPixelData_length by (rule payload_size_bound [OF w(2) h(2)])
  note r = chunk_header_reads [OF dg w(2) h(2) n, of 71 pd, folded chunk_def]
  have c: "imageDataToXtg img = chunk"
    by (simp add: imageDataToXtg_def Let_def chunk_def dg_def pd_def)
  show ?thesis
    unfolding c decodeXtcPageToCanvas_def Let_def
    using w(1) h(1) by (simp add: r pd_def)
qed

lemma decode_imageDataToXth:
  assumes w: "0 < imgWidth img" "imgWidth img < 65536"
    and h: "0 < imgHeight img" "imgHeight img < 65536"
  shows "decodeXtcPageToCanvas (imageDataToXth img)
         = Inr \<lparr>imgWidth = imgWidth img, imgHeight = imgHeight img,
                 imgData = paintPixels (imgWidth img) (imgHeight img)
                             (xthColor (fst (xthPlanes img)) (snd (xthPlanes img))
                                (imgWidth img) (imgHeight img))\<rparr>"
proof -
  define p0 where "p0 = fst (xthPlanes img)"
  define p1 where "p1 = snd (xthPlanes img)"
  define ps where "ps = (imgHeight img + 7) div 8 * imgWidth img"
  define dg where "dg = map (\<lambda>i. pixelByte p0 i XOR pixelByte p1 i) [0..<8]"
  define chunk where "chunk = [88, 84, 72, 0] @ u16le (imgWidth img) @ u16le (imgHeight img)
      @ [0] @ [0] @ u32le (length p0 * 2) @ dg @ p0 @ p1"
  have l: "length p0 = ps" "length p1 = ps"
    by (simp_all add: p0_def p1_def ps_def xthPlanes_length)
  have dg: "length dg = 8" by (simp add: dg_def)
  have "ps \<le> 8192 * 65536"
  proof -
    have "(imgHeight img + 7) div 8 \<le> 8192" using h(2) by simp
    then show ?thesis unfolding ps_def using w(2) by (intro mult_le_mono) simp_all
  qed
  then have n: "length p0 * 2 < 2 ^ 32" by (simp add: l)
  note r = chunk_header_reads [OF dg w(2) h(2) n, of 72 "p0 @ p1", folded chunk_def]
  have c: "imageDataToXth img = chunk"
    by (simp add: imageDataToXth_def Let_def chunk_def dg_def p0_def p1_def)
  have d: "drop (22 + ps) chunk = drop ps (drop 22 chunk)" by (simp add: add.commute)
  have t0: "take ps (drop 22 chunk) = p0" unfolding r(5) by (simp add: l)
  have t1: "take ps (drop (22 + ps) chunk) = p1" unfolding d r(5) by (simp add: l)
  have fits: "\<not> length chunk < 22 + ps + ps" unfolding r(6) by (simp add: l)
  have m: "take 3 chunk = [88, 84, 72]" by (rule r(1))
  have e: "decodeXtcPageToCanvas chunk =
      (if 22 + ps + ps > length chunk then Inl RangeError
       else Inr \<lparr>imgWidth = imgWidth img, imgHeight = imgHeight img,
                   imgData = paintPixels (imgWidth img) (imgHeight img)
                     (xthColor (take ps (drop 22 chunk)) (take ps (drop (22 + ps) chunk))
                        (imgWidth img) (imgHeight img))\<rparr>)"
    unfolding decodeXtcPageToCanvas_def Let_def ps_def
    using w(1) h(1) by (simp add: r(1,2,3))
  show ?thesis
    unfolding c e t0 t1 using fits by (simp add: p0_def p1_def)
qed

lemma pixel_read:
  assumes "length d = 4 * (w * h)" "i < w * h"
  shows "pixelByte d ((i div w * w + i mod w) * 4) = d ! (4 * i)"
proof -
  have "0 < w" using assms(2) by (cases w) simp_all
  then have e: "(i div w * w + i mod w) * 4 = 4 * i" by (rule pixel_index)
  have "4 * i < length d" using assms by simp
  then show ?thesis unfolding e pixelByte_def by simp
qed

lemma xtg_pixel:
  assumes len: "length (imgData img) = 4 * (imgWidth img * imgHeight img)"
    and i: "i < imgWidth img * imgHeight img" and j: "j < 3"
  shows "paintPixels (imgWidth img) (imgHeight img)
           (xtgColor (xtgPixelData img) (imgWidth img)) ! (4 * i + j)
         = (if imgData img ! (4 * i) \<ge> 128 then 255 else 0)"
proof -
  note c = pixel_coords [OF i]
  show ?thesis
    unfolding paintPixels_nth [OF i j] xtgColor_packed [OF c [THEN conjunct1] c [THEN conjunct2]]
      pixel_read [OF len i] ..
qed

lemma xth_pixel:
  assumes len: "length (imgData img) = 4 * (imgWidth img * imgHeight img)"
    and i: "i < imgWidth img * imgHeight img" and j: "j < 3"
  shows "paintPixels (imgWidth img) (imgHeight img)
           (xthColor (fst (xthPlanes img)) (snd (xthPlanes img)) (imgWidth img) (imgHeight img))
           ! (4 * i + j)
         = (let gray = imgData img ! (4 * i)
            in if gray \<ge> 212 then 255 else if gray \<ge> 127 then 170
               else if gray \<ge> 42 then 85 else 0)"
proof -
  note c = pixel_coords [OF i]
  show ?thesis
    unfolding paintPixels_nth [OF i j] xthColor_packed [OF c [THEN conjunct1] c [THEN conjunct2]]
      pixel_read [OF len i] ..
qed

lemma channel_cases: "j < 3 \<Longrightarrow> j = 0 \<or> j = 1 \<or> j = (2::nat)"
  by auto

lemma all_below_4: "(\<forall>i<4::nat. P i) \<longleftrightarrow> P 0 \<and> P 1 \<and> P 2 \<and> P 3"
proof -
  have "i < 4 \<longleftrightarrow> i = 0 \<or> i = 1 \<or> i = 2 \<or> i = 3" for i :: nat by auto
  then show ?thesis by auto
qed

text \<open>
  Claim C4, as the code has it. Take an image whose width and height are between 1 and
  65535, the range of the 16-bit header fields, with four bytes per pixel and equal red,
  green and blue values. If every red value is 0 or 255, the XTG chunk packed from it
  decodes to an image of the same width and height with the same red, green and blue
  values at every pixel. If every red value is 0, 85, 170 or 255, the same holds of the
  XTH chunk.
\<close>

theorem pack_unpack_roundtrip:
  assumes w: "0 < imgWidth img" "imgWidth img < 65536"
    and h: "0 < imgHeight img" "imgHeight img < 65536"
    and len: "length (imgData img) = 4 * (imgWidth img * imgHeight img)"
    and rgb: "\<forall>i < imgWidth img * imgHeight img.
                imgData img ! (4 * i + 1) = imgData img ! (4 * i)
                \<and> imgData img ! (4 * i + 2) = imgData img ! (4 * i)"
  shows "((\<forall>i < imgWidth img * imgHeight img. imgData img ! (4 * i) \<in> {0, 255})
          \<longrightarrow> (\<exists>out. decodeXtcPageToCanvas (imageDataToXtg img) = Inr out
                 \<and> imgWidth out = imgWidth img \<and> imgHeight out = imgHeight img
                 \<and> length (imgData out) = length (imgData img)
                 \<and> (\<forall>i < imgWidth img * imgHeight img. \<forall>j < 3.
                       imgData out ! (4 * i + j) = imgData img ! (4 * i + j))))
       \<and> ((\<forall>i < imgWidth img * imgHeight img. imgData img ! (4 * i) \<in> {0, 85, 170, 255})
          \<longrightarrow> (\<exists>out. decodeXtcPageToCanvas (imageDataToXth img) = Inr out
                 \<and> imgWidth out = imgWidth img \<and> imgHeight out = imgHeight img
                 \<and> length (imgData out) = length (imgData img)
                 \<and> (\<forall>i < imgWidth img * imgHeight img. \<forall>j < 3.
                       imgData out ! (4 * i + j) = imgData img ! (4 * i + j))))"
proof (intro conjI impI)
  have same: "imgData img ! (4 * i + j) = imgData img ! (4 * i)"
    if "i < imgWidth img * imgHeight img" "j < 3" for i j
    using rgb that(1) channel_cases [OF that(2)] by auto
  {
    assume q: "\<forall>i < imgWidth img * imgHeight img. imgData img ! (4 * i) \<in> {0, 255}"
    have "paintPixels (imgWidth img) (imgHeight img)
            (xtgColor (xtgPixelData img) (imgWidth img)) ! (4 * i + j)
          = imgData img ! (4 * i + j)"
      if i: "i < imgWidth img * imgHeight img" and j: "j < 3" for i j
    proof -
      have "imgData img ! (4 * i) = 0 \<or> imgData img ! (4 * i) = 255" using q i by simp
      then show ?thesis unfolding xtg_pixel [OF len i j] same [OF i j] by auto
    qed
    then show "\<exists>out. decodeXtcPageToCanvas (imageDataToXtg img) = Inr out
                 \<and> imgWidth out = imgWidth img \<and> imgHeight out = imgHeight img
                 \<and> length (imgData out) = length (imgData img)
                 \<and> (\<forall>i < imgWidth img * imgHeight img. \<forall>j < 3.
                       imgData out ! (4 * i + j) = imgData img ! (4 * i + j))"
      unfolding decode_imageDataToXtg [OF w h] by (simp add: paintPixels_length len)
  }
  {
    assume q: "\<forall>i < imgWidth img * imgHeight img. imgData img ! (4 * i) \<in> {0, 85, 170, 255}"
    have "paintPixels (imgWidth img) (imgHeight img)
            (xthColor (fst (xthPlanes img)) (snd (xthPlanes img)) (imgWidth img) (imgHeight img))
            ! (4 * i + j)
          = imgData img ! (4 * i + j)"
      if i: "i < imgWidth img * imgHeight img" and j: "j < 3" for i j
    proof -
      have "imgData img ! (4 * i) = 0 \<or> imgData img ! (4 * i) = 85
          \<or> imgData img ! (4 * i) = 170 \<or> imgData img ! (4 * i) = 255"
        using q i by simp
      then show ?thesis unfolding xth_pixel [OF len i j] same [OF i j] by auto
    qed
    then show "\<exists>out. decodeXtcPageToCanvas (imageDataToXth img) = Inr out
                 \<and> imgWidth out = imgWidth img \<and> imgHeight out = imgHeight img
                 \<and> length (imgData out) = length (imgData img)
                 \<and> (\<forall>i < imgWidth img * imgHeight img. \<forall>j < 3.
                       imgData out ! (4 * i + j) = imgData img ! (4 * i + j))"
      unfolding decode_imageDataToXth [OF w h] by (simp add: paintPixels_length len)
  }
qed

text \<open>The 2 by 2 checkerboard goes through both packers unchanged.\<close>

theorem pack_unpack_roundtrip_witness:
  "(\<exists>out. decodeXtcPageToCanvas (imageDataToXtg exampleImage) = Inr out
          \<and> imgWidth out = 2 \<and> imgHeight out = 2 \<and> length (imgData out) = 16
          \<and> imgData out ! 0 = 255 \<and> imgData out ! 4 = 0
          \<and> imgData out ! 8 = 0 \<and> imgData out ! 12 = 255)
   \<and> (\<exists>out. decodeXtcPageToCanvas (imageDataToXth exampleImage) = Inr out
          \<and> imgWidth out = 2 \<and> imgHeight out = 2 \<and> length (imgData out) = 16
          \<and> imgData out ! 0 = 255 \<and> imgData out ! 4 = 0
          \<and> imgData out ! 8 = 0 \<and> imgData out ! 12 = 255)"
proof -
  have dims: "0 < imgWidth exampleImage" "imgWidth exampleImage < 65536"
    "0 < imgHeight exampleImage" "imgHeight exampleImage < 65536"
    "length (imgData exampleImage) = 4 * (imgWidth exampleImage * imgHeight exampleImage)"
    by (simp_all add: exampleImage_def)
  have n: "imgWidth exampleImage * imgHeight exampleImage = 4" by (simp add: exampleImage_def)
  have rgb: "\<forall>i < imgWidth exampleImage * imgHeight exampleImage.
      imgData exampleImage ! (4 * i + 1) = imgData exampleImage ! (4 * i)
      \<and> imgData exampleImage ! (4 * i + 2) = imgData exampleImage ! (4 * i)"
    unfolding n all_below_4 by (simp add: exampleImage_def)
  have q1: "\<forall>i < imgWidth exampleImage * imgHeight exampleImage.
      imgData exampleImage ! (4 * i) \<in> {0, 255}"
    unfolding n all_below_4 by (simp add: exampleImage_def)
  have q2: "\<forall>i < imgWidth exampleImage * imgHeight exampleImage.
      imgData exampleImage ! (4 * i) \<in> {0, 85, 170, 255}"
    unfolding n all_below_4 by (simp add: exampleImage_def)
  note t = pack_unpack_roundtrip [OF dims rgb]
  from t q1 obtain o1 where o1: "decodeXtcPageToCanvas (imageDataToXtg exampleImage) = Inr o1"
    "imgWidth o1 = imgWidth exampleImage" "imgHeight o1 = imgHeight exampleImage"
    "length (imgData o1) = length (imgData exampleImage)"
    "\<forall>i < imgWidth exampleImage * imgHeight exampleImage. \<forall>j < 3.
        imgData o1 ! (4 * i + j) = imgData exampleImage ! (4 * i + j)"
    by blast
  from t q2 obtain o2 where o2: "decodeXtcPageToCanvas (imageDataToXth exampleImage) = Inr o2"
    "imgWidth o2 = imgWidth exampleImage" "imgHeight o2 = imgHeight exampleImage"
    "length (imgData o2) = length (imgData exampleImage)"
    "\<forall>i < imgWidth exampleImage * imgHeight exampleImage. \<forall>j < 3.
        imgData o2 ! (4 * i + j) = imgData exampleImage ! (4 * i + j)"
    by blast
  have p1: "imgData o1 ! 0 = 255" "imgData o1 ! 4 = 0" "imgData o1 ! 8 = 0" "imgData o1 ! 12 = 255"
    using o1(5) [unfolded n, rule_format, of 0 0] o1(5) [unfolded n, rule_format, of 1 0]
      o1(5) [unfolded n, rule_format, of 2 0] o1(5) [unfolded n, rule_format, of 3 0]
    by (simp_all add: exampleImage_def)
  have p2: "imgData o2 ! 0 = 255" "imgData o2 ! 4 = 0" "imgData o2 ! 8 = 0" "imgData o2 ! 12 = 255"
    using o2(5) [unfolded n, rule_format, of 0 0] o2(5) [unfolded n, rule_format, of 1 0]
      o2(5) [unfolded n, rule_format, of 2 0] o2(5) [unfolded n, rule_format, of 3 0]
    by (simp_all add: exampleImage_def)
  have d1: "imgWidth o1 = 2" "imgHeight o1 = 2" "length (imgData o1) = 16"
    using o1(2-4) by (simp_all add: exampleImage_def)
  have d2: "imgWidth o2 = 2" "imgHeight o2 = 2" "length (imgData o2) = 16"
    using o2(2-4) by (simp_all add: exampleImage_def)
  show ?thesis using o1(1) o2(1) p1 p2 d1 d2 by blast
qed

text \<open>
  An all-black image 65536 pixels wide and 1 pixel high is quantized, but its width is
  stored as 0 in the 16-bit header field: decoding its chunk fails, no image comes back.
\<close>

theorem wide_image_counterexample:
  "decodeXtcPageToCanvas (imageDataToXtg wideImage) = Inl IndexSizeError"
  unfolding imageDataToXtg_def decodeXtcPageToCanvas_def Let_def
  by (simp add: wideImage_def u16le_def getUint16_def)

end
